theory Spec2Isabelle
  imports Main "HOL-Library.Word" "HOL-Library.Monad_Syntax"
begin

section \<open>The heap of pieces\<close>

text \<open>
  \<^verbatim>\<open>ListPiece.cpp\<close> manipulates \<^verbatim>\<open>Piece\<close> objects through raw pointers. The model keeps
  an explicit store: an address is an index into an arena of cells, a pointer is an
  address or \<^verbatim>\<open>NULL\<close> (\<open>None\<close>). A cell that is \<open>None\<close> has been released, and an
  index beyond the arena was never allocated. \<^verbatim>\<open>Piece.h\<close> is not part of the sources;
  the only member the list code touches is \<^verbatim>\<open>nxt\<close>, so a piece is its \<open>nxt\<close> link
  and an abstract rest, the \<open>payload\<close>.
\<close>

type_synonym addr = nat

type_synonym ptr = "addr option"

record 'p Piece =
  nxt :: ptr
  payload :: 'p

type_synonym 'p heap = "'p Piece option list"

definition cell :: "'p heap \<Rightarrow> addr \<Rightarrow> 'p Piece option" where
  "cell h a = (if a < length h then h ! a else None)"

text \<open>
  Reading or writing through a pointer that is \<^verbatim>\<open>NULL\<close> or does not point to a live
  piece is undefined behaviour in C++; every such access is the result \<open>None\<close> of the
  model.
\<close>

definition get_nxt :: "'p heap \<Rightarrow> ptr \<Rightarrow> ptr option" where
  "get_nxt h p = (case p of None \<Rightarrow> None | Some a \<Rightarrow> map_option nxt (cell h a))"

definition set_nxt :: "'p heap \<Rightarrow> ptr \<Rightarrow> ptr \<Rightarrow> 'p heap option" where
  "set_nxt h p q =
     (case p of
        None \<Rightarrow> None
      | Some a \<Rightarrow> (case cell h a of
                    None \<Rightarrow> None
                  | Some c \<Rightarrow> Some (h[a := Some (c\<lparr>nxt := q\<rparr>)])))"

text \<open>
  \<^verbatim>\<open>new Piece()\<close>: the arena grows by one cell, whose address is returned. What the
  default constructor of \<^verbatim>\<open>Piece\<close> leaves in the object is not in the sources, so the
  fresh object \<open>dflt\<close> is a parameter. Allocation is taken to succeed.
\<close>

definition new_Piece :: "'p Piece \<Rightarrow> 'p heap \<Rightarrow> ptr \<times> 'p heap" where
  "new_Piece dflt h = (Some (length h), h @ [Some dflt])"

section \<open>The list object and its operations\<close>

text \<open>
  The data members of \<^verbatim>\<open>ListPiece\<close>. \<^verbatim>\<open>getLength\<close> returns \<^verbatim>\<open>unsigned int\<close>, so
  \<open>lengthList\<close> is a 32-bit word: \<^verbatim>\<open>++\<close> and \<^verbatim>\<open>--\<close> wrap around.
\<close>

record ListPiece =
  head :: ptr
  tail :: ptr
  lastActivePiece :: ptr
  currentPiece :: ptr
  lengthList :: "32 word"

text \<open>A program state is the heap together with the members of one list object.\<close>

type_synonym 'p state = "'p heap \<times> ListPiece"

definition ListPiece_ctor :: "'p Piece \<Rightarrow> 'p heap \<Rightarrow> 'p state option" where
  "ListPiece_ctor dflt h = do {
     let (hd_ptr, h1) = new_Piece dflt h;
     h2 \<leftarrow> set_nxt h1 hd_ptr None;
     Some (h2, \<lparr>head = hd_ptr, tail = hd_ptr, lastActivePiece = hd_ptr,
                currentPiece = hd_ptr, lengthList = 0\<rparr>)
   }"

fun addPiece :: "ptr \<Rightarrow> 'p state \<Rightarrow> 'p state option" where
  "addPiece newP (h, l) = do {
     n \<leftarrow> get_nxt h (lastActivePiece l);
     (h', l') \<leftarrow>
       (if n = None then do {
          let l1 = l\<lparr>tail := newP\<rparr>;
          h1 \<leftarrow> set_nxt h (tail l1) None;
          h2 \<leftarrow> set_nxt h1 (lastActivePiece l1) (tail l1);
          Some (h2, l1\<lparr>lastActivePiece := tail l1\<rparr>)
        } else do {
          n' \<leftarrow> get_nxt h (lastActivePiece l);
          let l1 = l\<lparr>lastActivePiece := n'\<rparr>;
          Some (h, l1\<lparr>lastActivePiece := newP\<rparr>)
        });
     Some (h', l'\<lparr>lengthList := lengthList l' + 1\<rparr>)
   }"

fun move :: "'p state \<Rightarrow> 'p state option" where
  "move (h, l) = do {
     n \<leftarrow> get_nxt h (currentPiece l);
     Some (h, l\<lparr>currentPiece := n\<rparr>)
   }"

fun getLength :: "'p state \<Rightarrow> 32 word" where
  "getLength (h, l) = lengthList l"

fun initializeCurrentPiece :: "'p state \<Rightarrow> 'p state" where
  "initializeCurrentPiece (h, l) = (h, l\<lparr>currentPiece := head l\<rparr>)"

text \<open>
  The four assignments of \<^verbatim>\<open>deleteNxtPieceAndMove\<close>, in the order of the source. Each
  right-hand side is read from the heap as the preceding assignments left it. The function
  contains no \<^verbatim>\<open>delete\<close>: in \<^verbatim>\<open>ListPiece.cpp\<close> pieces are released by the destructor
  only, which walks the chain from \<open>head\<close>.
\<close>

fun deleteNxtPieceAndMove :: "'p state \<Rightarrow> 'p state option" where
  "deleteNxtPieceAndMove (h, l) = do {
     x \<leftarrow> get_nxt h (currentPiece l);
     h1 \<leftarrow> set_nxt h (tail l) x;
     x' \<leftarrow> get_nxt h1 (currentPiece l);
     y \<leftarrow> get_nxt h1 x';
     h2 \<leftarrow> set_nxt h1 (currentPiece l) y;
     t \<leftarrow> get_nxt h2 (tail l);
     let l1 = l\<lparr>tail := t\<rparr>;
     h3 \<leftarrow> set_nxt h2 (tail l1) None;
     Some (h3, l1\<lparr>lengthList := lengthList l1 - 1\<rparr>)
   }"

text \<open>
  Modelled from the spec: \<^verbatim>\<open>Piece::addPointAndPenalty\<close> is defined in \<^verbatim>\<open>Piece.cpp\<close>, which
  is not part of the sources. The spec describes it as a mutator of the piece it is called
  on, with side effects confined to that piece and the chain links left alone; so it is a
  parameter \<open>f\<close> that maps the point and the old payload to the new payload.
\<close>

definition Piece_addPointAndPenalty ::
  "('pt \<Rightarrow> 'p \<Rightarrow> 'p) \<Rightarrow> 'pt \<Rightarrow> 'p heap \<Rightarrow> ptr \<Rightarrow> 'p heap option" where
  "Piece_addPointAndPenalty f pt h p =
     (case p of
        None \<Rightarrow> None
      | Some a \<Rightarrow> (case cell h a of
                    None \<Rightarrow> None
                  | Some c \<Rightarrow> Some (h[a := Some (c\<lparr>payload := f pt (payload c)\<rparr>)])))"

text \<open>
  The \<^verbatim>\<open>while\<close> loop of \<^verbatim>\<open>ListPiece::addPointAndPenalty\<close>. On a cyclic chain it never
  leaves the loop, which is the value \<open>None\<close> too. The last argument is a ghost trace, not
  present in the source: the addresses on which the node-level method has been invoked, in
  the order of the calls.
\<close>

partial_function (option) apap_while ::
  "('pt \<Rightarrow> 'p \<Rightarrow> 'p) \<Rightarrow> 'pt \<Rightarrow> 'p heap \<Rightarrow> ListPiece \<Rightarrow> addr list
     \<Rightarrow> ('p state \<times> addr list) option" where
  "apap_while f pt h l tr =
     (case currentPiece l of
        None \<Rightarrow> Some ((h, l), tr)
      | Some a \<Rightarrow> do {
          h' \<leftarrow> Piece_addPointAndPenalty f pt h (currentPiece l);
          s' \<leftarrow> move (h', l);
          apap_while f pt (fst s') (snd s') (tr @ [a])
        })"

declare apap_while.simps [code]

fun addPointAndPenalty ::
  "('pt \<Rightarrow> 'p \<Rightarrow> 'p) \<Rightarrow> 'pt \<Rightarrow> 'e \<Rightarrow> 'p state \<Rightarrow> ('p state \<times> addr list) option" where
  "addPointAndPenalty f pt edge (h, l) = apap_while f pt h (l\<lparr>currentPiece := head l\<rparr>) []"

text \<open>
  \<^verbatim>\<open>edgeConstraintLP\<close> is declared to return a \<^verbatim>\<open>ListPiece\<close> by value and its body is
  empty: control reaches the closing brace of a value-returning function without a
  \<^verbatim>\<open>return\<close>, which is undefined behaviour. The model has no result: neither a
  returned list nor a state after the call.
\<close>

definition edgeConstraintLP ::
  "'e \<Rightarrow> 32 word \<Rightarrow> 'b \<Rightarrow> 'p state \<Rightarrow> ('p state \<times> ListPiece) option" where
  "edgeConstraintLP edge newLabel bound s = None"

section \<open>Chains\<close>

text \<open>
  \<open>path h p as q\<close>: following \<open>nxt\<close> from the pointer \<open>p\<close> visits exactly the live
  pieces \<open>as\<close>, in this order, and then arrives at \<open>q\<close>. A chain is a path that ends at
  \<^verbatim>\<open>NULL\<close>: \<open>chain h (head l) ns\<close> says that a full traversal of the list visits
  \<open>ns\<close>, the sentinel first.
\<close>

fun path :: "'p heap \<Rightarrow> ptr \<Rightarrow> addr list \<Rightarrow> ptr \<Rightarrow> bool" where
  "path h p [] q = (p = q)"
| "path h p (a # as) q =
     (p = Some a \<and> (case cell h a of None \<Rightarrow> False | Some c \<Rightarrow> path h (nxt c) as q))"

definition chain :: "'p heap \<Rightarrow> ptr \<Rightarrow> addr list \<Rightarrow> bool" where
  "chain h p as = path h p as None"

section \<open>Sequences of calls\<close>

text \<open>
  A client of the list calls its public operations one after the other, and allocates the
  pieces it appends (\<open>CallerNew\<close>). \<open>pre\<close> is the precondition the specification states
  for each operation; the pieces the list owns (the sentinel and every piece that has been
  appended, in this order) are kept in a ghost list.
\<close>

datatype ('p, 'pt, 'e) call =
    AddPiece ptr
  | Move
  | InitializeCurrentPiece
  | DeleteNxtPieceAndMove
  | AddPointAndPenalty 'pt 'e
  | CallerNew "'p Piece"

fun has_two_successors :: "'p heap \<Rightarrow> ptr \<Rightarrow> bool" where
  "has_two_successors h p =
     (case get_nxt h p of
        Some (Some x) \<Rightarrow> (case get_nxt h (Some x) of Some (Some y) \<Rightarrow> True | _ \<Rightarrow> False)
      | _ \<Rightarrow> False)"

fun pre :: "('p, 'pt, 'e) call \<Rightarrow> addr list \<Rightarrow> 'p state \<Rightarrow> bool" where
  "pre (AddPiece newP) own (h, l) =
     (case newP of None \<Rightarrow> False | Some a \<Rightarrow> cell h a \<noteq> None \<and> a \<notin> set own)"
| "pre Move own (h, l) = (get_nxt h (currentPiece l) \<noteq> None)"
| "pre InitializeCurrentPiece own (h, l) = True"
| "pre DeleteNxtPieceAndMove own (h, l) = has_two_successors h (currentPiece l)"
| "pre (AddPointAndPenalty pt edge) own (h, l) = True"
| "pre (CallerNew c) own (h, l) = True"

fun exec :: "('pt \<Rightarrow> 'p \<Rightarrow> 'p) \<Rightarrow> ('p, 'pt, 'e) call \<Rightarrow> 'p state \<Rightarrow> 'p state option" where
  "exec f (AddPiece newP) s = addPiece newP s"
| "exec f Move s = move s"
| "exec f InitializeCurrentPiece s = Some (initializeCurrentPiece s)"
| "exec f DeleteNxtPieceAndMove s = deleteNxtPieceAndMove s"
| "exec f (AddPointAndPenalty pt edge) s = map_option fst (addPointAndPenalty f pt edge s)"
| "exec f (CallerNew c) (h, l) = Some (snd (new_Piece c h), l)"

fun owns :: "('p, 'pt, 'e) call \<Rightarrow> addr list \<Rightarrow> addr list" where
  "owns (AddPiece (Some a)) own = own @ [a]"
| "owns c own = own"

fun run ::
  "('pt \<Rightarrow> 'p \<Rightarrow> 'p) \<Rightarrow> ('p, 'pt, 'e) call list \<Rightarrow> addr list \<Rightarrow> 'p state \<Rightarrow> 'p state option" where
  "run f [] own s = Some s"
| "run f (c # cs) own s =
     (if pre c own s then do { s' \<leftarrow> exec f c s; run f cs (owns c own) s' } else None)"

text \<open>
  \<open>from_new\<close>: a list is constructed on the heap \<open>h\<close>, and the calls \<open>cs\<close> follow. The
  sentinel gets the address \<open>length h\<close>.
\<close>

definition from_new ::
  "('pt \<Rightarrow> 'p \<Rightarrow> 'p) \<Rightarrow> 'p Piece \<Rightarrow> 'p heap \<Rightarrow> ('p, 'pt, 'e) call list \<Rightarrow> 'p state option" where
  "from_new f dflt h cs = do { s0 \<leftarrow> ListPiece_ctor dflt h; run f cs [length h] s0 }"

section \<open>Lists that have only been appended to\<close>

text \<open>
  \<open>wf_list own (h, l)\<close>: the chain from \<open>head\<close> consists of exactly the pieces \<open>own\<close>,
  the sentinel first and then the appended pieces in the order of the calls; \<open>tail\<close> and
  \<open>lastActivePiece\<close> both point to the last of them; the cursor is \<^verbatim>\<open>NULL\<close> or on the
  chain; and \<open>lengthList\<close> is the number of pieces after the sentinel, as an
  \<^verbatim>\<open>unsigned int\<close>.
\<close>

fun wf_list :: "addr list \<Rightarrow> 'p state \<Rightarrow> bool" where
  "wf_list own (h, l) =
     (own \<noteq> [] \<and> chain h (head l) own
      \<and> tail l = Some (last own) \<and> lastActivePiece l = Some (last own)
      \<and> (case currentPiece l of None \<Rightarrow> True | Some c \<Rightarrow> c \<in> set own)
      \<and> lengthList l = of_nat (length own - 1))"

section \<open>Example states\<close>

text \<open>
  Three pieces A, B, C at the addresses 0, 1, 2, allocated by the caller with arbitrary
  links; a list constructed on this heap has its sentinel at address 3.
\<close>

definition blank :: "nat Piece" where
  "blank = \<lparr>nxt = None, payload = 0\<rparr>"

definition three_pieces :: "nat heap" where
  "three_pieces = [Some \<lparr>nxt = Some 7, payload = 10\<rparr>, Some \<lparr>nxt = None, payload = 20\<rparr>,
                   Some \<lparr>nxt = Some 0, payload = 30\<rparr>]"

definition append_ABC :: "(nat, nat, unit) call list" where
  "append_ABC = [AddPiece (Some 0), AddPiece (Some 1), AddPiece (Some 2)]"

text \<open>The state right after construction on that heap.\<close>

definition heap_fresh :: "nat heap" where
  "heap_fresh = [Some \<lparr>nxt = Some 7, payload = 10\<rparr>, Some \<lparr>nxt = None, payload = 20\<rparr>,
                 Some \<lparr>nxt = Some 0, payload = 30\<rparr>, Some \<lparr>nxt = None, payload = 0\<rparr>]"

definition list_fresh :: ListPiece where
  "list_fresh = \<lparr>head = Some 3, tail = Some 3, lastActivePiece = Some 3,
                 currentPiece = Some 3, lengthList = 0\<rparr>"

text \<open>The state after appending A, B, C: the chain is sentinel, A, B, C.\<close>

definition heap_ABC :: "nat heap" where
  "heap_ABC = [Some \<lparr>nxt = Some 1, payload = 10\<rparr>, Some \<lparr>nxt = Some 2, payload = 20\<rparr>,
               Some \<lparr>nxt = None, payload = 30\<rparr>, Some \<lparr>nxt = Some 0, payload = 0\<rparr>]"

definition list_ABC :: ListPiece where
  "list_ABC = \<lparr>head = Some 3, tail = Some 2, lastActivePiece = Some 2,
               currentPiece = Some 3, lengthList = 3\<rparr>"

text \<open>The state after one \<^verbatim>\<open>deleteNxtPieceAndMove\<close> from there: sentinel, B, C, A.\<close>

definition heap_BCA :: "nat heap" where
  "heap_BCA = [Some \<lparr>nxt = None, payload = 10\<rparr>, Some \<lparr>nxt = Some 2, payload = 20\<rparr>,
               Some \<lparr>nxt = Some 0, payload = 30\<rparr>, Some \<lparr>nxt = Some 1, payload = 0\<rparr>]"

definition list_BCA :: ListPiece where
  "list_BCA = \<lparr>head = Some 3, tail = Some 0, lastActivePiece = Some 2,
               currentPiece = Some 3, lengthList = 2\<rparr>"

section \<open>Basic facts about the heap\<close>

lemma cell_update:
  "cell (h[a := v]) b = (if b = a \<and> a < length h then v else cell h b)"
  by (simp add: cell_def)

lemma cell_append_old: "cell h a = Some c \<Longrightarrow> cell (h @ xs) a = Some c"
  by (auto simp: cell_def nth_append split: if_splits)

lemma cell_Some_less: "cell h a = Some c \<Longrightarrow> a < length h"
  by (auto simp: cell_def split: if_splits)

lemma get_nxt_Some_iff:
  "get_nxt h p = Some q \<longleftrightarrow> (\<exists>a c. p = Some a \<and> cell h a = Some c \<and> nxt c = q)"
  by (auto simp: get_nxt_def split: option.splits)

lemma set_nxt_Some:
  "cell h a = Some c \<Longrightarrow> set_nxt h (Some a) q = Some (h[a := Some (c\<lparr>nxt := q\<rparr>)])"
  by (simp add: set_nxt_def)

section \<open>Paths and chains\<close>

lemma path_Cons_iff:
  "path h p (a # as) q \<longleftrightarrow> p = Some a \<and> (\<exists>c. cell h a = Some c \<and> path h (nxt c) as q)"
  by (simp split: option.splits)

lemma path_append:
  "path h p (as @ bs) q \<longleftrightarrow> (\<exists>r. path h p as r \<and> path h r bs q)"
  by (induction as arbitrary: p) (auto simp: path_Cons_iff simp del: path.simps(2))

lemma path_cong:
  "(\<And>a. a \<in> set as \<Longrightarrow> cell h' a = cell h a) \<Longrightarrow> path h' p as q = path h p as q"
  by (induction as arbitrary: p) (auto split: option.splits)

lemma path_grow_heap: "path h p as q \<Longrightarrow> path (h @ xs) p as q"
  by (induction as arbitrary: p) (auto simp: path_Cons_iff cell_append_old simp del: path.simps(2))

lemma chain_unique: "chain h p as \<Longrightarrow> chain h p bs \<Longrightarrow> as = bs"
  unfolding chain_def
proof (induction as arbitrary: p bs)
  case Nil
  then show ?case by (cases bs) auto
next
  case (Cons a as)
  then show ?case by (cases bs) (auto split: option.splits)
qed

lemma chain_suffix:
  "chain h p (as @ b # bs) \<Longrightarrow> chain h (Some b) (b # bs)"
  unfolding chain_def by (induction as arbitrary: p) (auto simp: path_Cons_iff simp del: path.simps(2))

lemma chain_distinct: "chain h p as \<Longrightarrow> distinct as"
proof (induction as arbitrary: p)
  case Nil
  then show ?case by simp
next
  case (Cons a as)
  from Cons.prems obtain c where c: "p = Some a" "cell h a = Some c" "chain h (nxt c) as"
    by (auto simp: chain_def split: option.splits)
  have "a \<notin> set as"
  proof
    assume "a \<in> set as"
    then obtain us vs where as: "as = us @ a # vs" by (auto simp: in_set_conv_decomp)
    with c(3) have "chain h (Some a) (a # vs)" using chain_suffix by blast
    moreover have "chain h (Some a) (a # as)" using Cons.prems c(1) by simp
    ultimately have "a # vs = a # as" by (rule chain_unique)
    with as show False by simp
  qed
  with Cons.IH [OF c(3)] show ?case by simp
qed

lemma chain_last_nxt:
  "chain h p as \<Longrightarrow> as \<noteq> [] \<Longrightarrow> get_nxt h (Some (last as)) = Some None"
  unfolding chain_def
  by (induction as arbitrary: p) (auto simp: get_nxt_def split: option.splits)

lemma path_step:
  "path h p (as @ a # b # bs) q \<Longrightarrow> get_nxt h (Some a) = Some (Some b)"
  by (induction as arbitrary: p) (auto simp: get_nxt_def split: option.splits)

lemma path_single: "path h (Some a) [a] q \<longleftrightarrow> get_nxt h (Some a) = Some q"
  by (auto simp: get_nxt_def split: option.splits)

lemma path_relink_last:
  "path h r rest q \<Longrightarrow> rest \<noteq> [] \<Longrightarrow>
   (\<And>a. a \<in> set (butlast rest) \<Longrightarrow> cell h' a = cell h a) \<Longrightarrow>
   get_nxt h' (Some (last rest)) = Some q' \<Longrightarrow> path h' r rest q'"
proof (induction rest arbitrary: r)
  case Nil
  then show ?case by simp
next
  case (Cons a rest)
  show ?case
  proof (cases "rest = []")
    case True
    with Cons.prems show ?thesis by (auto simp: get_nxt_def split: option.splits)
  next
    case False
    from Cons.prems(1) obtain c where c: "r = Some a" "cell h a = Some c" "path h (nxt c) rest q"
      by (auto split: option.splits)
    have "path h' (nxt c) rest q'"
      using Cons.IH [OF c(3) False] Cons.prems False by auto
    moreover have "cell h' a = cell h a" using Cons.prems(3) [of a] False by simp
    ultimately show ?thesis using c by simp
  qed
qed

lemma path_links_cong:
  "(\<And>a. a \<in> set as \<Longrightarrow> map_option nxt (cell h' a) = map_option nxt (cell h a))
   \<Longrightarrow> path h' p as q = path h p as q"
proof (induction as arbitrary: p)
  case Nil
  then show ?case by simp
next
  case (Cons a as)
  have "map_option nxt (cell h' a) = map_option nxt (cell h a)" using Cons.prems by simp
  moreover have "path h' r as q = path h r as q" for r using Cons by simp
  ultimately show ?case
    by (cases "cell h' a"; cases "cell h a") auto
qed

lemma chain_next:
  assumes "chain h p (us @ c # vs)" and "get_nxt h (Some c) = Some (Some x)"
  shows "\<exists>ws. vs = x # ws"
proof -
  from assms(1) have "chain h (Some c) (c # vs)" by (rule chain_suffix)
  then obtain cc where "cell h c = Some cc" "path h (nxt cc) vs None"
    by (auto simp: chain_def path_Cons_iff simp del: path.simps(2))
  moreover from this assms(2) have "nxt cc = Some x" by (simp add: get_nxt_def)
  ultimately have "path h (Some x) vs None" by simp
  then show ?thesis by (cases vs) auto
qed

lemma chain_nxt_in:
  assumes "chain h p ns" and "c \<in> set ns" and "get_nxt h (Some c) = Some (Some d)"
  shows "d \<in> set ns"
proof -
  from assms(2) obtain us vs where ns: "ns = us @ c # vs" by (auto simp: in_set_conv_decomp)
  with chain_next [of h p us c vs d] assms show ?thesis by auto
qed

lemma chain_decompose:
  assumes "chain h p ns" and "c \<in> set ns"
    and "get_nxt h (Some c) = Some (Some x)" and "get_nxt h (Some x) = Some (Some y)"
  shows "\<exists>ps qs. ns = ps @ c # x # y # qs"
proof -
  from assms(2) obtain us vs where ns: "ns = us @ c # vs" by (auto simp: in_set_conv_decomp)
  with chain_next [of h p us c vs x] assms obtain ws where vs: "vs = x # ws" by auto
  have "chain h p ((us @ [c]) @ x # ws)" using assms(1) ns vs by simp
  from chain_next [OF this assms(4)] obtain qs where "ws = y # qs" by auto
  with ns vs show ?thesis by auto
qed

lemma chain_head: "chain h p (a # as) \<Longrightarrow> p = Some a"
  by (simp add: chain_def)

section \<open>The effect of the operations on the heap\<close>

lemma butlast_not_last:
  "distinct xs \<Longrightarrow> a \<in> set (butlast xs) \<Longrightarrow> a \<noteq> last xs"
  by (induction xs) (auto split: if_splits dest: in_set_butlastD)

lemma deleteNxtPieceAndMove_result:
  assumes t: "tail l = Some t" "cell h t = Some ct" "nxt ct = None"
    and c: "currentPiece l = Some c" "cell h c = Some cc" "nxt cc = Some x"
    and x: "cell h x = Some cx" "nxt cx = Some y"
  shows "deleteNxtPieceAndMove (h, l) =
    Some (h[t := Some (ct\<lparr>nxt := Some x\<rparr>), c := Some (cc\<lparr>nxt := Some y\<rparr>),
            x := Some (cx\<lparr>nxt := None\<rparr>)],
          l\<lparr>tail := Some x, lengthList := lengthList l - 1\<rparr>)"
proof -
  have ne: "t \<noteq> c" "t \<noteq> x" using t c x by auto
  have lt: "t < length h" "c < length h" "x < length h"
    using t c x by (auto dest: cell_Some_less)
  show ?thesis
  proof (cases "c = x")
    case True
    with c x have "cc = cx" "y = x" by auto
    with True ne lt t c x show ?thesis
      by (simp add: get_nxt_def set_nxt_def cell_update)
  next
    case False
    with ne lt t c x show ?thesis
      by (simp add: get_nxt_def set_nxt_def cell_update list_update_swap)
  qed
qed

lemma deleteNxtPieceAndMove_cells:
  assumes t: "get_nxt h (tail l) = Some None"
    and c: "get_nxt h (currentPiece l) = Some (Some x)"
    and x: "get_nxt h (Some x) = Some (Some y)"
  shows "\<exists>h' t c. deleteNxtPieceAndMove (h, l) =
           Some (h', l\<lparr>tail := Some x, lengthList := lengthList l - 1\<rparr>)
         \<and> tail l = Some t \<and> currentPiece l = Some c \<and> t \<noteq> c \<and> t \<noteq> x
         \<and> length h' = length h
         \<and> get_nxt h' (Some t) = Some (Some x)
         \<and> (c \<noteq> x \<longrightarrow> get_nxt h' (Some c) = Some (Some y))
         \<and> get_nxt h' (Some x) = Some None
         \<and> (\<forall>b. b \<noteq> t \<longrightarrow> b \<noteq> c \<longrightarrow> b \<noteq> x \<longrightarrow> cell h' b = cell h b)
         \<and> (\<forall>b. map_option payload (cell h' b) = map_option payload (cell h b))"
proof -
  from t obtain t ct where t': "tail l = Some t" "cell h t = Some ct" "nxt ct = None"
    by (auto simp: get_nxt_Some_iff)
  from c obtain c cc where c': "currentPiece l = Some c" "cell h c = Some cc" "nxt cc = Some x"
    by (auto simp: get_nxt_Some_iff)
  from x obtain cx where x': "cell h x = Some cx" "nxt cx = Some y"
    by (auto simp: get_nxt_Some_iff)
  have ne: "t \<noteq> c" "t \<noteq> x" using t' c' x' by auto
  have lt: "t < length h" "c < length h" "x < length h"
    using t' c' x' by (auto dest: cell_Some_less)
  note r = deleteNxtPieceAndMove_result [OF t' c' x']
  show ?thesis
    apply (rule exI, rule exI [of _ t], rule exI [of _ c])
    apply (intro conjI)
              apply (rule r)
    using t' c' x' ne lt
             apply (auto simp: get_nxt_def cell_update)
    done
qed

lemma deleteNxtPieceAndMove_chain:
  assumes ch: "chain h (head l) (ps @ c # x # rest)"
    and rest: "rest \<noteq> []"
    and tl: "tail l = Some (last rest)"
    and cur: "currentPiece l = Some c"
  shows "\<exists>h'. deleteNxtPieceAndMove (h, l) =
           Some (h', l\<lparr>tail := Some x, lengthList := lengthList l - 1\<rparr>)
         \<and> chain h' (head l) (ps @ c # rest @ [x])
         \<and> length h' = length h
         \<and> (\<forall>b. b \<noteq> last rest \<longrightarrow> b \<noteq> c \<longrightarrow> b \<noteq> x \<longrightarrow> cell h' b = cell h b)
         \<and> (\<forall>b. map_option payload (cell h' b) = map_option payload (cell h b))"
proof -
  obtain y qs where yqs: "rest = y # qs" using rest by (cases rest) auto
  have dist: "distinct (ps @ c # x # rest)" using ch by (rule chain_distinct)
  have p: "path h (head l) (ps @ c # x # rest) None" using ch by (simp add: chain_def)
  have nt: "get_nxt h (tail l) = Some None"
    using chain_last_nxt [OF ch] rest tl by simp
  have nc: "get_nxt h (currentPiece l) = Some (Some x)"
    using path_step [OF p] cur by simp
  have nx: "get_nxt h (Some x) = Some (Some y)"
    using path_step [of h "head l" "ps @ [c]" x y qs None] p yqs by simp
  from deleteNxtPieceAndMove_cells [OF nt nc nx] tl cur
  obtain h' where
    res: "deleteNxtPieceAndMove (h, l) =
            Some (h', l\<lparr>tail := Some x, lengthList := lengthList l - 1\<rparr>)"
    and len: "length h' = length h"
    and t': "get_nxt h' (Some (last rest)) = Some (Some x)"
    and c': "c \<noteq> x \<longrightarrow> get_nxt h' (Some c) = Some (Some y)"
    and x': "get_nxt h' (Some x) = Some None"
    and frame: "\<forall>b. b \<noteq> last rest \<longrightarrow> b \<noteq> c \<longrightarrow> b \<noteq> x \<longrightarrow> cell h' b = cell h b"
    and pay: "\<forall>b. map_option payload (cell h' b) = map_option payload (cell h b)"
    by auto
  have lastin: "last rest \<in> set rest" using rest by simp
  from p have p1: "path h (head l) ps (Some c)"
    by (auto simp: path_append)
  from p obtain r where "path h (head l) (ps @ [c, x]) r" "path h r rest None"
    using path_append [of h "head l" "ps @ [c, x]" rest None] by auto
  with yqs have p2: "path h (Some y) rest None" by auto
  have "path h' (head l) ps (Some c)"
  proof -
    have nps: "last rest \<notin> set ps" "c \<notin> set ps" "x \<notin> set ps"
      using dist lastin by auto
    have "cell h' a = cell h a" if "a \<in> set ps" for a
    proof -
      from that nps have "a \<noteq> last rest" "a \<noteq> c" "a \<noteq> x" by auto
      with frame show ?thesis by blast
    qed
    then show ?thesis using p1 path_cong [of ps h' h] by simp
  qed
  moreover have "path h' (Some c) [c] (Some y)"
  proof -
    have "c \<noteq> x" using dist by auto
    with c' have "get_nxt h' (Some c) = Some (Some y)" by simp
    then show ?thesis by (simp only: path_single)
  qed
  moreover have "path h' (Some y) rest (Some x)"
  proof (rule path_relink_last [OF p2 rest _ t'])
    fix a assume a: "a \<in> set (butlast rest)"
    then have "a \<in> set rest" by (rule in_set_butlastD)
    moreover have "a \<noteq> last rest"
      using a dist by (intro butlast_not_last) auto
    moreover have "c \<notin> set rest" "x \<notin> set rest" using dist by auto
    ultimately have "a \<noteq> last rest" "a \<noteq> c" "a \<noteq> x" by auto
    with frame show "cell h' a = cell h a" by blast
  qed
  moreover have "path h' (Some x) [x] None"
    using x' by (simp only: path_single)
  ultimately have "path h' (head l) (ps @ [c] @ rest @ [x]) None"
    unfolding path_append by blast
  then have "chain h' (head l) (ps @ c # rest @ [x])" by (simp add: chain_def)
  with res len frame pay show ?thesis by blast
qed

lemma addPiece_else_branch:
  "get_nxt h (lastActivePiece l) = Some (Some q) \<Longrightarrow>
   addPiece newP (h, l) =
     Some (h, l\<lparr>lastActivePiece := newP, lengthList := lengthList l + 1\<rparr>)"
  by simp

lemma addPiece_first_branch:
  assumes la: "get_nxt h (lastActivePiece l) = Some None"
    and a: "cell h a = Some ca"
    and ne: "lastActivePiece l \<noteq> Some a"
  shows "\<exists>h' b. addPiece (Some a) (h, l) =
           Some (h', l\<lparr>tail := Some a, lastActivePiece := Some a,
                       lengthList := lengthList l + 1\<rparr>)
         \<and> lastActivePiece l = Some b
         \<and> length h' = length h
         \<and> get_nxt h' (Some a) = Some None
         \<and> get_nxt h' (Some b) = Some (Some a)
         \<and> (\<forall>d. d \<noteq> a \<longrightarrow> d \<noteq> b \<longrightarrow> cell h' d = cell h d)
         \<and> (\<forall>d. map_option payload (cell h' d) = map_option payload (cell h d))"
proof -
  from la obtain b cb where b: "lastActivePiece l = Some b" "cell h b = Some cb" "nxt cb = None"
    by (auto simp: get_nxt_Some_iff)
  have lt: "a < length h" "b < length h" using a b by (auto dest: cell_Some_less)
  have "b \<noteq> a" using ne b by simp
  with a b lt show ?thesis
    by (auto simp: get_nxt_def set_nxt_def cell_update)
qed

lemma addPiece_chain:
  assumes ch: "chain h (head l) ns" and ns: "ns \<noteq> []"
    and tl: "tail l = Some (last ns)" and la: "lastActivePiece l = Some (last ns)"
    and a: "cell h a = Some ca" and fresh: "a \<notin> set ns"
  shows "\<exists>h'. addPiece (Some a) (h, l) =
           Some (h', l\<lparr>tail := Some a, lastActivePiece := Some a,
                       lengthList := lengthList l + 1\<rparr>)
         \<and> chain h' (head l) (ns @ [a])
         \<and> length h' = length h
         \<and> (\<forall>d. d \<noteq> a \<longrightarrow> d \<noteq> last ns \<longrightarrow> cell h' d = cell h d)
         \<and> (\<forall>d. map_option payload (cell h' d) = map_option payload (cell h d))"
proof -
  have n: "get_nxt h (lastActivePiece l) = Some None"
    using chain_last_nxt [OF ch ns] la by simp
  have ne: "lastActivePiece l \<noteq> Some a" using la fresh ns by auto
  from addPiece_first_branch [OF n a ne] la
  obtain h' where
    res: "addPiece (Some a) (h, l) =
            Some (h', l\<lparr>tail := Some a, lastActivePiece := Some a,
                        lengthList := lengthList l + 1\<rparr>)"
    and len: "length h' = length h"
    and a': "get_nxt h' (Some a) = Some None"
    and b': "get_nxt h' (Some (last ns)) = Some (Some a)"
    and frame: "\<forall>d. d \<noteq> a \<longrightarrow> d \<noteq> last ns \<longrightarrow> cell h' d = cell h d"
    and pay: "\<forall>d. map_option payload (cell h' d) = map_option payload (cell h d)"
    by auto
  have dist: "distinct ns" using ch by (rule chain_distinct)
  have p: "path h (head l) ns None" using ch by (simp add: chain_def)
  have "path h' (head l) ns (Some a)"
  proof (rule path_relink_last [OF p ns _ b'])
    fix d assume d: "d \<in> set (butlast ns)"
    then have "d \<in> set ns" by (rule in_set_butlastD)
    with fresh have "d \<noteq> a" by auto
    moreover have "d \<noteq> last ns" using dist d by (rule butlast_not_last)
    ultimately show "cell h' d = cell h d" using frame by blast
  qed
  moreover have "path h' (Some a) [a] None" using a' by (simp only: path_single)
  ultimately have "path h' (head l) (ns @ [a]) None" unfolding path_append by blast
  then have "chain h' (head l) (ns @ [a])" by (simp add: chain_def)
  with res len frame pay show ?thesis by blast
qed

section \<open>The loop over the chain\<close>

lemma cursor_None_eq: "currentPiece l = None \<Longrightarrow> l\<lparr>currentPiece := None\<rparr> = l"
  by (cases l) simp

lemma apap_while_path:
  "path h (currentPiece l) ns None \<Longrightarrow> distinct ns \<Longrightarrow>
   \<exists>h'. apap_while f pt h l tr = Some ((h', l\<lparr>currentPiece := None\<rparr>), tr @ ns)
      \<and> length h' = length h
      \<and> (\<forall>b. cell h' b =
            (if b \<in> set ns then map_option (\<lambda>c. c\<lparr>payload := f pt (payload c)\<rparr>) (cell h b)
             else cell h b))"
proof (induction ns arbitrary: h l tr)
  case Nil
  then have "currentPiece l = None" by simp
  then show ?case by (subst apap_while.simps) (simp add: cursor_None_eq)
next
  case (Cons a as)
  from Cons.prems(1) obtain c where c: "currentPiece l = Some a" "cell h a = Some c"
    "path h (nxt c) as None"
    by (auto simp: path_Cons_iff simp del: path.simps(2))
  define h1 where "h1 = h[a := Some (c\<lparr>payload := f pt (payload c)\<rparr>)]"
  define l1 where "l1 = l\<lparr>currentPiece := nxt c\<rparr>"
  have lt: "a < length h" using c(2) by (rule cell_Some_less)
  have cells1: "cell h1 b = (if b = a then Some (c\<lparr>payload := f pt (payload c)\<rparr>) else cell h b)" for b
    using lt by (simp add: h1_def cell_update)
  have a_notin: "a \<notin> set as" and dist: "distinct as" using Cons.prems(2) by auto
  have "path h1 (currentPiece l1) as None"
  proof -
    have "path h1 (nxt c) as None = path h (nxt c) as None"
      by (rule path_cong) (use a_notin cells1 in auto)
    with c(3) show ?thesis by (simp add: l1_def)
  qed
  from Cons.IH [OF this dist, of "tr @ [a]"] obtain h' where
    r: "apap_while f pt h1 l1 ((tr @ [a])) = Some ((h', l1\<lparr>currentPiece := None\<rparr>), (tr @ [a]) @ as)"
    and len: "length h' = length h1"
    and cells: "\<forall>b. cell h' b =
            (if b \<in> set as then map_option (\<lambda>c. c\<lparr>payload := f pt (payload c)\<rparr>) (cell h1 b)
             else cell h1 b)"
    by blast
  have p: "Piece_addPointAndPenalty f pt h (currentPiece l) = Some h1"
    using c by (simp add: Piece_addPointAndPenalty_def h1_def)
  have m: "move (h1, l) = Some (h1, l1)"
    using c cells1 [of a] by (simp add: get_nxt_def l1_def)
  have "apap_while f pt h l tr = apap_while f pt h1 l1 (tr @ [a])"
    by (subst apap_while.simps) (simp add: c(1) p [unfolded c(1)] m del: move.simps)
  with r have "apap_while f pt h l tr = Some ((h', l\<lparr>currentPiece := None\<rparr>), tr @ a # as)"
    by (simp add: l1_def)
  moreover have "length h' = length h" using len by (simp add: h1_def)
  moreover have "cell h' b =
            (if b \<in> set (a # as) then map_option (\<lambda>c. c\<lparr>payload := f pt (payload c)\<rparr>) (cell h b)
             else cell h b)" for b
    using cells [rule_format, of b] cells1 [of b] a_notin c(2) by auto
  ultimately show ?case by blast
qed

lemma addPointAndPenalty_chain:
  assumes "chain h (head l) ns"
  shows "\<exists>h'. addPointAndPenalty f pt edge (h, l) = Some ((h', l\<lparr>currentPiece := None\<rparr>), ns)
      \<and> chain h' (head l) ns
      \<and> length h' = length h
      \<and> (\<forall>b. cell h' b =
            (if b \<in> set ns then map_option (\<lambda>c. c\<lparr>payload := f pt (payload c)\<rparr>) (cell h b)
             else cell h b))"
proof -
  have d: "distinct ns" using assms by (rule chain_distinct)
  have p: "path h (currentPiece (l\<lparr>currentPiece := head l\<rparr>)) ns None"
    using assms by (simp add: chain_def)
  from apap_while_path [OF p d, of f pt "[]"] obtain h' where
    r: "apap_while f pt h (l\<lparr>currentPiece := head l\<rparr>) [] = Some ((h', l\<lparr>currentPiece := None\<rparr>), ns)"
    and len: "length h' = length h"
    and cells: "\<forall>b. cell h' b =
            (if b \<in> set ns then map_option (\<lambda>c. c\<lparr>payload := f pt (payload c)\<rparr>) (cell h b)
             else cell h b)"
    by auto
  have "map_option nxt (cell h' a) = map_option nxt (cell h a)" for a
    using cells [rule_format, of a] by (cases "cell h a") auto
  then have "path h' (head l) ns None = path h (head l) ns None"
    by (intro path_links_cong)
  with assms have "chain h' (head l) ns" by (simp add: chain_def)
  with r len cells show ?thesis by auto
qed

lemma apap_while_links:
  assumes "apap_while f pt h l tr = Some y"
  shows "length (fst (fst y)) = length h
     \<and> (\<forall>b. map_option nxt (cell (fst (fst y)) b) = map_option nxt (cell h b))
     \<and> snd (fst y) = l\<lparr>currentPiece := None\<rparr>"
  using assms
proof (induction rule: apap_while.raw_induct [rotated 1, consumes 1, case_names body])
  case (body g f pt h l tr y)
  show ?case
  proof (cases "currentPiece l")
    case None
    with body(2) show ?thesis by (auto simp: cursor_None_eq)
  next
    case (Some a)
    with body(2) obtain h1 s1 where p: "Piece_addPointAndPenalty f pt h (Some a) = Some h1"
      and m: "move (h1, l) = Some s1" and r: "g f pt (fst s1) (snd s1) (tr @ [a]) = Some y"
      by (auto simp: bind_eq_Some_conv)
    from p obtain c where c: "cell h a = Some c"
      and h1: "h1 = h[a := Some (c\<lparr>payload := f pt (payload c)\<rparr>)]"
      by (auto simp: Piece_addPointAndPenalty_def split: option.splits)
    have lt: "a < length h" using c by (rule cell_Some_less)
    have links: "map_option nxt (cell h1 b) = map_option nxt (cell h b)" for b
      using c lt by (simp add: h1 cell_update)
    from m obtain n where s1: "s1 = (h1, l\<lparr>currentPiece := n\<rparr>)"
      by (auto simp: bind_eq_Some_conv)
    have "length h1 = length h" by (simp add: h1)
    with body(1) [OF r] links show ?thesis
      by (simp add: s1)
  qed
qed

lemma get_nxt_links_cong:
  "(\<And>b. map_option nxt (cell h' b) = map_option nxt (cell h b)) \<Longrightarrow> get_nxt h' p = get_nxt h p"
  by (simp add: get_nxt_def split: option.splits)

lemma get_nxt_grow_heap: "get_nxt h p = Some q \<Longrightarrow> get_nxt (h @ xs) p = Some q"
  by (auto simp: get_nxt_Some_iff cell_append_old)

lemma has_two_successorsD:
  "has_two_successors h p \<Longrightarrow>
   \<exists>x y. get_nxt h p = Some (Some x) \<and> get_nxt h (Some x) = Some (Some y)"
  by (auto split: option.splits)

section \<open>Invariants of call sequences\<close>

lemma exec_tail_inv:
  assumes t: "get_nxt h (tail l) = Some None"
    and la: "\<exists>b. b \<in> set own \<and> lastActivePiece l = Some b"
    and p: "pre c own (h, l)"
    and e: "exec f c (h, l) = Some (h', l')"
  shows "get_nxt h' (tail l') = Some None
     \<and> (\<exists>b. b \<in> set (owns c own) \<and> lastActivePiece l' = Some b)"
proof (cases c)
  case (AddPiece newP)
  with p obtain a ca where a: "newP = Some a" "cell h a = Some ca" "a \<notin> set own"
    by (auto split: option.splits)
  from la a(3) have ne: "lastActivePiece l \<noteq> Some a" by auto
  from e AddPiece a(1) have r: "addPiece (Some a) (h, l) = Some (h', l')" by simp
  then obtain n where n: "get_nxt h (lastActivePiece l) = Some n"
    by (auto simp: bind_eq_Some_conv)
  show ?thesis
  proof (cases n)
    case None
    from addPiece_first_branch [OF n [unfolded None] a(2) ne] r
    show ?thesis using AddPiece a(1) by (auto simp del: addPiece.simps)
  next
    case (Some q)
    from addPiece_else_branch [OF n [unfolded Some], of "Some a"] r t
    show ?thesis using AddPiece a(1) by (auto simp del: addPiece.simps)
  qed
next
  case Move
  with e t la show ?thesis by (auto simp: bind_eq_Some_conv)
next
  case InitializeCurrentPiece
  with e t la show ?thesis by auto
next
  case DeleteNxtPieceAndMove
  with p obtain x y where xy: "get_nxt h (currentPiece l) = Some (Some x)"
    "get_nxt h (Some x) = Some (Some y)"
    using has_two_successorsD [of h "currentPiece l"] by auto
  from deleteNxtPieceAndMove_cells [OF t xy] e la DeleteNxtPieceAndMove
  show ?thesis by (auto simp del: deleteNxtPieceAndMove.simps)
next
  case (AddPointAndPenalty pt edge)
  with e obtain tr where
    "apap_while f pt h (l\<lparr>currentPiece := head l\<rparr>) [] = Some ((h', l'), tr)"
    by auto
  from apap_while_links [OF this]
  have links: "\<And>b. map_option nxt (cell h' b) = map_option nxt (cell h b)"
    and l': "l' = l\<lparr>currentPiece := None\<rparr>"
    by auto
  have "get_nxt h' (tail l) = get_nxt h (tail l)" using links by (rule get_nxt_links_cong)
  with t la l' AddPointAndPenalty show ?thesis by simp
next
  case (CallerNew d)
  with e have "h' = h @ [Some d]" "l' = l" by (auto simp: new_Piece_def)
  with t la CallerNew show ?thesis by (simp add: get_nxt_grow_heap)
qed

lemma run_tail_inv:
  "get_nxt h (tail l) = Some None \<Longrightarrow> \<exists>b. b \<in> set own \<and> lastActivePiece l = Some b \<Longrightarrow>
   run f cs own (h, l) = Some (h', l') \<Longrightarrow> get_nxt h' (tail l') = Some None"
proof (induction cs arbitrary: own h l)
  case Nil
  then show ?case by simp
next
  case (Cons c cs)
  from Cons.prems(3) obtain h1 l1 where p: "pre c own (h, l)"
    and e: "exec f c (h, l) = Some (h1, l1)"
    and r: "run f cs (owns c own) (h1, l1) = Some (h', l')"
    by (auto simp: bind_eq_Some_conv split: if_splits)
  from exec_tail_inv [OF Cons.prems(1,2) p e]
  have "get_nxt h1 (tail l1) = Some None"
    "\<exists>b. b \<in> set (owns c own) \<and> lastActivePiece l1 = Some b"
    by auto
  from Cons.IH [OF this r] show ?case .
qed

lemma exec_wf:
  assumes wf: "wf_list own (h, l)"
    and p: "pre c own (h, l)"
    and nd: "c \<noteq> DeleteNxtPieceAndMove"
  shows "\<exists>h' l'. exec f c (h, l) = Some (h', l') \<and> wf_list (owns c own) (h', l')
           \<and> hd (owns c own) = hd own
           \<and> (\<forall>d. cell h d \<noteq> None \<longrightarrow> cell h' d \<noteq> None)"
proof -
  from wf have own: "own \<noteq> []" and ch: "chain h (head l) own"
    and tl: "tail l = Some (last own)" and la: "lastActivePiece l = Some (last own)"
    and cur: "case currentPiece l of None \<Rightarrow> True | Some c \<Rightarrow> c \<in> set own"
    and len: "lengthList l = of_nat (length own - 1)"
    by auto
  show ?thesis
  proof (cases c)
    case (AddPiece newP)
    with p obtain a ca where a: "newP = Some a" "cell h a = Some ca" "a \<notin> set own"
      by (auto split: option.splits)
    from addPiece_chain [OF ch own tl la a(2,3)] obtain h' where
      r: "addPiece (Some a) (h, l) =
            Some (h', l\<lparr>tail := Some a, lastActivePiece := Some a,
                        lengthList := lengthList l + 1\<rparr>)"
      and ch': "chain h' (head l) (own @ [a])"
      and pay: "\<forall>d. map_option payload (cell h' d) = map_option payload (cell h d)"
      by blast
    have live: "cell h d \<noteq> None \<longrightarrow> cell h' d \<noteq> None" for d
      using pay [rule_format, of d] by (cases "cell h' d") auto
    define l1 where "l1 = l\<lparr>tail := Some a, lastActivePiece := Some a,
                        lengthList := lengthList l + 1\<rparr>"
    have "of_nat (length own - 1) + (1 :: 32 word) = of_nat (length own)"
      using own by (cases own) simp_all
    with len have len1: "lengthList l1 = of_nat (length (own @ [a]) - 1)"
      by (simp add: l1_def)
    have cur1: "case currentPiece l1 of None \<Rightarrow> True | Some c \<Rightarrow> c \<in> set (own @ [a])"
      using cur by (cases "currentPiece l") (simp_all add: l1_def)
    have "wf_list (own @ [a]) (h', l1)"
      unfolding wf_list.simps using ch' cur1 len1 by (simp add: l1_def)
    moreover have "exec f c (h, l) = Some (h', l1)"
      using r by (simp add: AddPiece a(1) l1_def del: addPiece.simps)
    moreover have "owns c own = own @ [a]" by (simp add: AddPiece a(1))
    moreover have "hd (own @ [a]) = hd own" using own by simp
    ultimately show ?thesis using live by auto
  next
    case Move
    with p obtain c0 cc where c0: "currentPiece l = Some c0" "cell h c0 = Some cc"
      by (auto simp: get_nxt_def split: option.splits)
    with cur have c_in: "c0 \<in> set own" by simp
    have "case nxt cc of None \<Rightarrow> True | Some d \<Rightarrow> d \<in> set own"
    proof (cases "nxt cc")
      case None
      then show ?thesis by simp
    next
      case (Some d)
      with c0 have "get_nxt h (Some c0) = Some (Some d)" by (simp add: get_nxt_def)
      from chain_nxt_in [OF ch c_in this] Some show ?thesis by simp
    qed
    with wf c0 Move show ?thesis by (auto simp: get_nxt_def)
  next
    case InitializeCurrentPiece
    from own ch have "head l = Some (hd own)" by (cases own) (auto dest: chain_head)
    with wf own InitializeCurrentPiece show ?thesis by auto
  next
    case DeleteNxtPieceAndMove
    with nd show ?thesis by simp
  next
    case (AddPointAndPenalty pt edge)
    from addPointAndPenalty_chain [OF ch, of f pt edge] obtain h' where
      r: "addPointAndPenalty f pt edge (h, l) = Some ((h', l\<lparr>currentPiece := None\<rparr>), own)"
      and ch': "chain h' (head l) own"
      and cells: "\<forall>b. cell h' b =
            (if b \<in> set own then map_option (\<lambda>c. c\<lparr>payload := f pt (payload c)\<rparr>) (cell h b)
             else cell h b)"
      by blast
    have live: "cell h d \<noteq> None \<longrightarrow> cell h' d \<noteq> None" for d
      using cells [rule_format, of d] by auto
    from r ch' own tl la len live show ?thesis
      unfolding AddPointAndPenalty
      by (auto simp del: addPointAndPenalty.simps)
  next
    case (CallerNew d)
    have "chain (h @ [Some d]) (head l) own"
      using ch by (simp add: chain_def path_grow_heap)
    moreover have "cell h b \<noteq> None \<longrightarrow> cell (h @ [Some d]) b \<noteq> None" for b
      by (auto simp: cell_append_old)
    ultimately show ?thesis using wf CallerNew by (auto simp: new_Piece_def)
  qed
qed

lemma run_wf:
  "wf_list own (h, l) \<Longrightarrow> DeleteNxtPieceAndMove \<notin> set cs \<Longrightarrow>
   run f cs own (h, l) = Some (h', l') \<Longrightarrow>
   \<exists>own'. wf_list own' (h', l') \<and> hd own' = hd own"
proof (induction cs arbitrary: own h l)
  case Nil
  then show ?case by auto
next
  case (Cons c cs)
  from Cons.prems(3) obtain h1 l1 where p: "pre c own (h, l)"
    and e: "exec f c (h, l) = Some (h1, l1)"
    and r: "run f cs (owns c own) (h1, l1) = Some (h', l')"
    by (auto simp: bind_eq_Some_conv split: if_splits)
  from Cons.prems(2) have nd: "c \<noteq> DeleteNxtPieceAndMove"
    and nds: "DeleteNxtPieceAndMove \<notin> set cs" by auto
  from exec_wf [OF Cons.prems(1) p nd, of f] e
  have wf1: "wf_list (owns c own) (h1, l1)" and hd1: "hd (owns c own) = hd own"
    by auto
  from Cons.IH [OF wf1 nds r] hd1 show ?case by auto
qed

lemma wf_delete:
  assumes wf: "wf_list own (h, l)" and two: "has_two_successors h (currentPiece l)"
  shows "\<exists>h' l' own'. deleteNxtPieceAndMove (h, l) = Some (h', l')
           \<and> chain h' (head l') own' \<and> length own' = length own \<and> hd own' = hd own
           \<and> lengthList l' = lengthList l - 1"
proof -
  from wf have own: "own \<noteq> []" and ch: "chain h (head l) own"
    and tl: "tail l = Some (last own)"
    and cur: "case currentPiece l of None \<Rightarrow> True | Some c \<Rightarrow> c \<in> set own"
    by auto
  from has_two_successorsD [OF two] obtain x y where
    x: "get_nxt h (currentPiece l) = Some (Some x)" and y: "get_nxt h (Some x) = Some (Some y)"
    by blast
  from x obtain c where c: "currentPiece l = Some c" by (auto simp: get_nxt_Some_iff)
  with cur have c_in: "c \<in> set own" by simp
  from chain_decompose [OF ch c_in x [unfolded c] y] obtain ps qs where
    dec: "own = ps @ c # x # y # qs" by blast
  have tl': "tail l = Some (last (y # qs))" using tl dec by simp
  from deleteNxtPieceAndMove_chain [OF ch [unfolded dec] _ tl' c] obtain h' where
    r: "deleteNxtPieceAndMove (h, l) =
          Some (h', l\<lparr>tail := Some x, lengthList := lengthList l - 1\<rparr>)"
    and ch': "chain h' (head l) (ps @ c # (y # qs) @ [x])"
    by blast
  have "hd (ps @ c # (y # qs) @ [x]) = hd own" using dec by (cases ps) auto
  moreover have "length (ps @ c # (y # qs) @ [x]) = length own" using dec by simp
  ultimately show ?thesis using r ch' by (auto simp del: deleteNxtPieceAndMove.simps)
qed

lemma ctor_wf:
  "\<exists>h0 l0. ListPiece_ctor dflt h = Some (h0, l0) \<and> wf_list [length h] (h0, l0)
      \<and> (\<forall>d. cell h d \<noteq> None \<longrightarrow> cell h0 d \<noteq> None)"
  by (simp add: ListPiece_ctor_def new_Piece_def set_nxt_def cell_def chain_def nth_append)

lemma append_three:
  fixes f :: "'pt \<Rightarrow> 'p \<Rightarrow> 'p" and h :: "'p heap"
  assumes d: "distinct [a, b, c]"
    and live: "cell h a \<noteq> None" "cell h b \<noteq> None" "cell h c \<noteq> None"
  shows "\<exists>h3 l3. wf_list [length h, a, b, c] (h3, l3)
     \<and> (\<forall>cs :: ('p, 'pt, 'e) call list.
           from_new f dflt h (AddPiece (Some a) # AddPiece (Some b) # AddPiece (Some c) # cs)
             = run f cs [length h, a, b, c] (h3, l3))"
proof -
  have ne: "a \<noteq> length h" "b \<noteq> length h" "c \<noteq> length h"
    using live by (auto simp: cell_def)
  from ctor_wf [of dflt h] obtain h0 l0 where
    c0: "ListPiece_ctor dflt h = Some (h0, l0)" and wf0: "wf_list [length h] (h0, l0)"
    and live0: "\<forall>d. cell h d \<noteq> None \<longrightarrow> cell h0 d \<noteq> None"
    by blast
  have p1: "pre (AddPiece (Some a) :: ('p, 'pt, 'e) call) [length h] (h0, l0)"
    using live0 live ne by simp
  from exec_wf [OF wf0 p1, of f] obtain h1 l1 where
    e1: "exec f (AddPiece (Some a) :: ('p, 'pt, 'e) call) (h0, l0) = Some (h1, l1)"
    and wf1: "wf_list [length h, a] (h1, l1)"
    and live1: "\<forall>d. cell h0 d \<noteq> None \<longrightarrow> cell h1 d \<noteq> None"
    by (auto simp del: exec.simps wf_list.simps)
  have p2: "pre (AddPiece (Some b) :: ('p, 'pt, 'e) call) [length h, a] (h1, l1)"
    using live0 live1 live ne d by simp
  from exec_wf [OF wf1 p2, of f] obtain h2 l2 where
    e2: "exec f (AddPiece (Some b) :: ('p, 'pt, 'e) call) (h1, l1) = Some (h2, l2)"
    and wf2: "wf_list [length h, a, b] (h2, l2)"
    and live2: "\<forall>d. cell h1 d \<noteq> None \<longrightarrow> cell h2 d \<noteq> None"
    by (auto simp del: exec.simps wf_list.simps)
  have p3: "pre (AddPiece (Some c) :: ('p, 'pt, 'e) call) [length h, a, b] (h2, l2)"
    using live0 live1 live2 live ne d by simp
  from exec_wf [OF wf2 p3, of f] obtain h3 l3 where
    e3: "exec f (AddPiece (Some c) :: ('p, 'pt, 'e) call) (h2, l2) = Some (h3, l3)"
    and wf3: "wf_list [length h, a, b, c] (h3, l3)"
    by (auto simp del: exec.simps wf_list.simps)
  have "from_new f dflt h (AddPiece (Some a) # AddPiece (Some b) # AddPiece (Some c) # cs)
             = run f cs [length h, a, b, c] (h3, l3)" for cs :: "('p, 'pt, 'e) call list"
    using c0 p1 e1 p2 e2 p3 e3
    by (simp add: from_new_def del: exec.simps pre.simps)
  with wf3 show ?thesis by blast
qed

section \<open>Construction\<close>

text \<open>
  C9. On every heap, the constructor returns; the new list has length 0; its head is a
  freshly allocated sentinel whose successor is \<^verbatim>\<open>NULL\<close>, so that one \<^verbatim>\<open>move\<close> from the
  sentinel leaves the cursor at \<^verbatim>\<open>NULL\<close>; \<open>tail\<close>, \<open>lastActivePiece\<close> and \<open>currentPiece\<close>
  all equal the head; and nothing else happens: the heap is the old heap, every cell
  unchanged, with the sentinel added.
\<close>

theorem ctor_fresh_list:
  "\<exists>h' l. ListPiece_ctor dflt h = Some (h', l)
     \<and> getLength (h', l) = 0
     \<and> head l = Some (length h) \<and> cell h (length h) = None
     \<and> get_nxt h' (head l) = Some None
     \<and> move (h', l) = Some (h', l\<lparr>currentPiece := None\<rparr>)
     \<and> tail l = head l \<and> lastActivePiece l = head l \<and> currentPiece l = head l
     \<and> h' = h @ [Some (dflt\<lparr>nxt := None\<rparr>)]"
  by (simp add: ListPiece_ctor_def new_Piece_def set_nxt_def get_nxt_def cell_def)

section \<open>The cursor\<close>

text \<open>
  C8. \<^verbatim>\<open>initializeCurrentPiece\<close> always sets \<open>currentPiece\<close> to \<open>head\<close>, the sentinel,
  whatever the list holds. \<^verbatim>\<open>move\<close> sets \<open>currentPiece\<close> to the successor of the piece it
  points to; when that piece has no successor, the cursor is \<^verbatim>\<open>NULL\<close> afterwards. (On a
  cursor that is already \<^verbatim>\<open>NULL\<close>, \<^verbatim>\<open>move\<close> dereferences it and has no result.)
\<close>

theorem cursor_reset_and_move:
  "initializeCurrentPiece (h, l) = (h, l\<lparr>currentPiece := head l\<rparr>)
   \<and> (\<forall>n. get_nxt h (currentPiece l) = Some n
          \<longrightarrow> move (h, l) = Some (h, l\<lparr>currentPiece := n\<rparr>))
   \<and> (get_nxt h (currentPiece l) = Some None
          \<longrightarrow> map_option (currentPiece \<circ> snd) (move (h, l)) = Some None)
   \<and> (currentPiece l = None \<longrightarrow> move (h, l) = None)"
  by (simp add: get_nxt_def)

theorem cursor_reset_and_move_witness:
  "get_nxt heap_ABC (currentPiece (list_ABC\<lparr>currentPiece := Some 2\<rparr>)) = Some None
   \<and> move (heap_ABC, list_ABC\<lparr>currentPiece := Some 2\<rparr>)
       = Some (heap_ABC, list_ABC\<lparr>currentPiece := None\<rparr>)
   \<and> get_nxt heap_ABC (currentPiece list_ABC) = Some (Some 0)
   \<and> move (heap_ABC, list_ABC) = Some (heap_ABC, list_ABC\<lparr>currentPiece := Some 0\<rparr>)
   \<and> initializeCurrentPiece (heap_ABC, list_ABC\<lparr>currentPiece := Some 2\<rparr>)
       = (heap_ABC, list_ABC\<lparr>currentPiece := Some 3\<rparr>)
   \<and> head list_ABC = Some 3
   \<and> move (heap_ABC, list_ABC\<lparr>currentPiece := None\<rparr>) = None"
proof -
  have a: "get_nxt heap_ABC (currentPiece (list_ABC\<lparr>currentPiece := Some 2\<rparr>)) = Some None"
    by (simp add: heap_ABC_def list_ABC_def get_nxt_def cell_def)
  have b: "get_nxt heap_ABC (currentPiece list_ABC) = Some (Some 0)"
    by (simp add: heap_ABC_def list_ABC_def get_nxt_def cell_def)
  have c: "head list_ABC = Some 3" by (simp add: list_ABC_def)
  have d: "currentPiece (list_ABC\<lparr>currentPiece := None\<rparr>) = None" by simp
  from cursor_reset_and_move [of heap_ABC "list_ABC\<lparr>currentPiece := Some 2\<rparr>"] a
  have 1: "move (heap_ABC, list_ABC\<lparr>currentPiece := Some 2\<rparr>)
       = Some (heap_ABC, list_ABC\<lparr>currentPiece := None\<rparr>)"
    and 2: "initializeCurrentPiece (heap_ABC, list_ABC\<lparr>currentPiece := Some 2\<rparr>)
       = (heap_ABC, list_ABC\<lparr>currentPiece := Some 3\<rparr>)"
    using c by simp_all
  from cursor_reset_and_move [of heap_ABC list_ABC] b
  have 3: "move (heap_ABC, list_ABC) = Some (heap_ABC, list_ABC\<lparr>currentPiece := Some 0\<rparr>)"
    by simp
  from cursor_reset_and_move [of heap_ABC "list_ABC\<lparr>currentPiece := None\<rparr>"] d
  have 4: "move (heap_ABC, list_ABC\<lparr>currentPiece := None\<rparr>) = None"
    by blast
  from a b c 1 2 3 4 show ?thesis by blast
qed

section \<open>Appending\<close>

text \<open>
  C7. When \<open>lastActivePiece\<close> has no successor and \<open>newP\<close> points to a live piece other
  than \<open>lastActivePiece\<close> itself (the specification asks for a piece that no list owns
  yet), \<^verbatim>\<open>addPiece\<close> returns: \<open>newP\<close> is the new \<open>tail\<close>, its successor is \<^verbatim>\<open>NULL\<close>, the
  old \<open>lastActivePiece\<close> is linked to it, \<open>lastActivePiece\<close> is \<open>newP\<close>, and \<open>lengthList\<close>
  has grown by one (as an \<^verbatim>\<open>unsigned int\<close>). No other link and no payload changes. In the
  other branch, when \<open>lastActivePiece\<close> has a successor, the heap and \<open>tail\<close> are left as
  they are, \<open>lastActivePiece\<close> becomes \<open>newP\<close>, and \<open>lengthList\<close> grows by one all the
  same.
\<close>

theorem addPiece_both_branches:
  "(get_nxt h (lastActivePiece l) = Some None \<and> cell h a \<noteq> None
      \<and> lastActivePiece l \<noteq> Some a
    \<longrightarrow> (\<exists>h'. addPiece (Some a) (h, l) =
               Some (h', l\<lparr>tail := Some a, lastActivePiece := Some a,
                           lengthList := lengthList l + 1\<rparr>)
            \<and> get_nxt h' (Some a) = Some None
            \<and> get_nxt h' (lastActivePiece l) = Some (Some a)
            \<and> (\<forall>d. Some d \<noteq> lastActivePiece l \<longrightarrow> d \<noteq> a \<longrightarrow> cell h' d = cell h d)
            \<and> (\<forall>d. map_option payload (cell h' d) = map_option payload (cell h d))))
   \<and> (\<forall>q. get_nxt h (lastActivePiece l) = Some (Some q)
        \<longrightarrow> addPiece newP (h, l) =
              Some (h, l\<lparr>lastActivePiece := newP, lengthList := lengthList l + 1\<rparr>))"
proof (intro conjI impI allI)
  assume "get_nxt h (lastActivePiece l) = Some None \<and> cell h a \<noteq> None
      \<and> lastActivePiece l \<noteq> Some a"
  then obtain ca where la: "get_nxt h (lastActivePiece l) = Some None"
    and a: "cell h a = Some ca" and ne: "lastActivePiece l \<noteq> Some a"
    by auto
  from addPiece_first_branch [OF la a ne]
  show "\<exists>h'. addPiece (Some a) (h, l) =
               Some (h', l\<lparr>tail := Some a, lastActivePiece := Some a,
                           lengthList := lengthList l + 1\<rparr>)
            \<and> get_nxt h' (Some a) = Some None
            \<and> get_nxt h' (lastActivePiece l) = Some (Some a)
            \<and> (\<forall>d. Some d \<noteq> lastActivePiece l \<longrightarrow> d \<noteq> a \<longrightarrow> cell h' d = cell h d)
            \<and> (\<forall>d. map_option payload (cell h' d) = map_option payload (cell h d))"
    by (auto simp del: addPiece.simps)
next
  fix q assume "get_nxt h (lastActivePiece l) = Some (Some q)"
  then show "addPiece newP (h, l) =
      Some (h, l\<lparr>lastActivePiece := newP, lengthList := lengthList l + 1\<rparr>)"
    by (rule addPiece_else_branch)
qed

text \<open>
  The first branch on the freshly constructed list, where A is appended behind the
  sentinel, and the second branch on the state in which \<open>lastActivePiece\<close> (C) has the
  successor A.
\<close>

theorem addPiece_both_branches_witness:
  "get_nxt heap_fresh (lastActivePiece list_fresh) = Some None
   \<and> cell heap_fresh 0 \<noteq> None \<and> lastActivePiece list_fresh \<noteq> Some 0
   \<and> (\<exists>h'. addPiece (Some 0) (heap_fresh, list_fresh) =
              Some (h', \<lparr>head = Some 3, tail = Some 0, lastActivePiece = Some 0,
                         currentPiece = Some 3, lengthList = 1\<rparr>)
           \<and> get_nxt h' (Some 0) = Some None
           \<and> get_nxt h' (Some 3) = Some (Some 0))
   \<and> get_nxt heap_BCA (lastActivePiece list_BCA) = Some (Some 0)
   \<and> addPiece (Some 4) (heap_BCA, list_BCA) =
        Some (heap_BCA, \<lparr>head = Some 3, tail = Some 0, lastActivePiece = Some 4,
                          currentPiece = Some 3, lengthList = 3\<rparr>)"
proof -
  have a: "get_nxt heap_fresh (lastActivePiece list_fresh) = Some None"
    by (simp add: heap_fresh_def list_fresh_def get_nxt_def cell_def)
  have b: "cell heap_fresh 0 \<noteq> None" by (simp add: heap_fresh_def cell_def)
  have c: "lastActivePiece list_fresh \<noteq> Some 0" by (simp add: list_fresh_def)
  have d: "get_nxt heap_BCA (lastActivePiece list_BCA) = Some (Some 0)"
    by (simp add: heap_BCA_def list_BCA_def get_nxt_def cell_def)
  have l1: "list_fresh\<lparr>tail := Some 0, lastActivePiece := Some 0,
                lengthList := lengthList list_fresh + 1\<rparr>
     = \<lparr>head = Some 3, tail = Some 0, lastActivePiece = Some 0,
                         currentPiece = Some 3, lengthList = 1\<rparr>"
    by (simp add: list_fresh_def)
  have l2: "list_BCA\<lparr>lastActivePiece := Some 4, lengthList := lengthList list_BCA + 1\<rparr>
     = \<lparr>head = Some 3, tail = Some 0, lastActivePiece = Some 4,
                          currentPiece = Some 3, lengthList = 3\<rparr>"
    by (simp add: list_BCA_def)
  have la: "lastActivePiece list_fresh = Some 3" by (simp add: list_fresh_def)
  note t1 = addPiece_both_branches [of heap_fresh list_fresh 0, THEN conjunct1, rule_format]
  note t2 = addPiece_both_branches [of heap_BCA list_BCA 0 "Some 4", THEN conjunct2, rule_format]
  from t1 a b c have "\<exists>h'. addPiece (Some 0) (heap_fresh, list_fresh) =
              Some (h', \<lparr>head = Some 3, tail = Some 0, lastActivePiece = Some 0,
                         currentPiece = Some 3, lengthList = 1\<rparr>)
           \<and> get_nxt h' (Some 0) = Some None
           \<and> get_nxt h' (Some 3) = Some (Some 0)"
    unfolding l1 la by blast
  moreover from t2 [OF d] have "addPiece (Some 4) (heap_BCA, list_BCA) =
        Some (heap_BCA, \<lparr>head = Some 3, tail = Some 0, lastActivePiece = Some 4,
                          currentPiece = Some 3, lengthList = 3\<rparr>)"
    unfolding l2 .
  ultimately show ?thesis using a b c d by blast
qed

section \<open>Removing the piece after the cursor\<close>

text \<open>
  The claim C1 says that the piece X after the cursor is unlinked and no longer reachable
  from \<open>head\<close>, that \<open>tail\<close> becomes the piece after X, and that X is released. On
  the list sentinel, A, B, C with the cursor at the sentinel, X is A (address 0) and the
  piece after it is B (address 1). After the call A is the last piece of the chain,
  \<open>tail\<close> points to A and not to B, and the cell of A is still allocated.
\<close>

theorem deleteNxt_keeps_node_counterexample:
  "deleteNxtPieceAndMove (heap_ABC, list_ABC) = Some (heap_BCA, list_BCA)
   \<and> chain heap_ABC (head list_ABC) [3, 0, 1, 2]
   \<and> currentPiece list_ABC = Some 3
   \<and> chain heap_BCA (head list_BCA) [3, 1, 2, 0]
   \<and> tail list_BCA = Some 0
   \<and> cell heap_BCA 0 = Some \<lparr>nxt = None, payload = 10\<rparr>"
  by (simp add: heap_ABC_def list_ABC_def heap_BCA_def list_BCA_def chain_def
      get_nxt_def set_nxt_def cell_def)

text \<open>
  C1, as the code has it. Let the chain from \<open>head\<close> be \<open>ps @ c # x # rest\<close> with the
  cursor at \<open>c\<close>, a piece \<open>x\<close> after it, a non-empty \<open>rest\<close> after \<open>x\<close>, and \<open>tail\<close> at
  the last piece of the chain. Then \<^verbatim>\<open>deleteNxtPieceAndMove\<close> returns, and it has moved \<open>x\<close>
  from its place after the cursor to the end of the chain: the successor of the cursor is
  the piece that followed \<open>x\<close>, the old tail is linked to \<open>x\<close>, \<open>tail\<close> is \<open>x\<close> and its
  successor is \<^verbatim>\<open>NULL\<close>, and \<open>lengthList\<close> is one less (as an \<^verbatim>\<open>unsigned int\<close>). \<open>x\<close>
  stays reachable from \<open>head\<close>, and no piece is released: the same cells are allocated
  before and after.
\<close>

theorem deleteNxt_relinks_node_at_tail:
  assumes "chain h (head l) (ps @ c # x # rest)"
    and "rest \<noteq> []"
    and "tail l = Some (last rest)"
    and "currentPiece l = Some c"
  shows "\<exists>h' l'. deleteNxtPieceAndMove (h, l) = Some (h', l')
           \<and> chain h' (head l') (ps @ c # rest @ [x])
           \<and> get_nxt h' (Some c) = Some (Some (hd rest))
           \<and> get_nxt h' (Some (last rest)) = Some (Some x)
           \<and> tail l' = Some x
           \<and> get_nxt h' (tail l') = Some None
           \<and> lengthList l' = lengthList l - 1
           \<and> (\<forall>b. (cell h' b = None) = (cell h b = None))"
proof -
  from deleteNxtPieceAndMove_chain [OF assms]
  obtain h' where
    res: "deleteNxtPieceAndMove (h, l) =
            Some (h', l\<lparr>tail := Some x, lengthList := lengthList l - 1\<rparr>)"
    and ch: "chain h' (head l) (ps @ c # rest @ [x])"
    and pay: "\<forall>b. map_option payload (cell h' b) = map_option payload (cell h b)"
    by blast
  obtain y qs where rest: "rest = y # qs" using assms(2) by (cases rest) auto
  have p: "path h' (head l) (ps @ c # rest @ [x]) None" using ch by (simp add: chain_def)
  have 1: "get_nxt h' (Some c) = Some (Some (hd rest))"
    using path_step [of h' "head l" ps c y "qs @ [x]" None] p rest by simp
  obtain ms t where ms: "rest = ms @ [t]"
    using assms(2) by (cases rest rule: rev_cases) auto
  have 2: "get_nxt h' (Some (last rest)) = Some (Some x)"
    using path_step [of h' "head l" "ps @ c # ms" t x "[]" None] p ms by simp
  have 3: "get_nxt h' (Some x) = Some None"
    using chain_last_nxt [OF ch] by simp
  have 4: "(cell h' b = None) = (cell h b = None)" for b
    using pay [rule_format, of b] by (cases "cell h' b"; cases "cell h b") auto
  show ?thesis
    apply (rule exI [of _ h'])
    apply (rule exI [of _ "l\<lparr>tail := Some x, lengthList := lengthList l - 1\<rparr>"])
    using res ch 1 2 3 4 apply simp
    done
qed

text \<open>The theorem on the list sentinel, A, B, C with the cursor at the sentinel.\<close>

theorem deleteNxt_relinks_node_at_tail_witness:
  "chain heap_ABC (head list_ABC) ([] @ 3 # 0 # [1, 2])
   \<and> tail list_ABC = Some (last [1, 2]) \<and> currentPiece list_ABC = Some 3
   \<and> (\<exists>h' l'. deleteNxtPieceAndMove (heap_ABC, list_ABC) = Some (h', l')
           \<and> chain h' (head l') [3, 1, 2, 0]
           \<and> get_nxt h' (Some 3) = Some (Some 1)
           \<and> get_nxt h' (Some 2) = Some (Some 0)
           \<and> tail l' = Some 0
           \<and> get_nxt h' (tail l') = Some None
           \<and> lengthList l' = 2
           \<and> (\<forall>b. (cell h' b = None) = (cell heap_ABC b = None)))"
proof -
  have a: "chain heap_ABC (head list_ABC) ([] @ 3 # 0 # [1, 2])"
    by (simp add: heap_ABC_def list_ABC_def chain_def cell_def)
  have b: "[1, 2] \<noteq> ([] :: nat list)" by simp
  have c: "tail list_ABC = Some (last [1, 2])" by (simp add: list_ABC_def)
  have d: "currentPiece list_ABC = Some 3" by (simp add: list_ABC_def)
  have e: "lengthList list_ABC - 1 = 2" by (simp add: list_ABC_def)
  from deleteNxt_relinks_node_at_tail [OF a b c d] a c d show ?thesis
    unfolding e by simp
qed

text \<open>
  The claim C5 says that the piece after the cursor is removed and that, after appending
  A, B, C and one call with the cursor at the sentinel, a traversal yields B, C. In the
  code the traversal from \<open>head\<close> then visits the sentinel, B, C and A: the length is 2,
  and A is still on the chain, behind C.
\<close>

theorem deleteNxt_scenario_counterexample:
  "from_new (\<lambda>pt p. pt + p) blank three_pieces append_ABC = Some (heap_ABC, list_ABC)
   \<and> getLength (heap_ABC, list_ABC) = 3
   \<and> chain heap_ABC (head list_ABC) [3, 0, 1, 2]
   \<and> from_new (\<lambda>pt p. pt + p) blank three_pieces
        (append_ABC @ [InitializeCurrentPiece, DeleteNxtPieceAndMove]) = Some (heap_BCA, list_BCA)
   \<and> getLength (heap_BCA, list_BCA) = 2
   \<and> chain heap_BCA (head list_BCA) [3, 1, 2, 0]
   \<and> \<not> chain heap_BCA (head list_BCA) [3, 1, 2]"
  by (simp add: from_new_def ListPiece_ctor_def new_Piece_def blank_def three_pieces_def
      append_ABC_def heap_ABC_def list_ABC_def heap_BCA_def list_BCA_def chain_def
      get_nxt_def set_nxt_def cell_def)

text \<open>
  C5, as the code has it. With the chain \<open>ps @ c # x # rest\<close>, the cursor at \<open>c\<close>, a
  non-empty \<open>rest\<close> and \<open>tail\<close> at the last piece, one call reduces \<^verbatim>\<open>getLength()\<close> by
  exactly 1 (as an \<^verbatim>\<open>unsigned int\<close>) and moves exactly the piece \<open>x\<close> that was adjacent to
  the cursor to the end of the chain; all other pieces keep their relative order and no
  payload changes. In particular, on any heap with three distinct live pieces A, B, C:
  after construction and appending A, B, C the length is 3 and the chain is sentinel, A,
  B, C; after \<^verbatim>\<open>initializeCurrentPiece\<close> and one \<^verbatim>\<open>deleteNxtPieceAndMove\<close> the length is 2
  and the chain is sentinel, B, C, A.
\<close>

theorem deleteNxt_moves_adjacent_node:
  fixes f :: "'pt \<Rightarrow> 'p \<Rightarrow> 'p" and h0 :: "'p heap"
  shows "(chain h (head l) (ps @ c # x # rest) \<and> rest \<noteq> [] \<and> tail l = Some (last rest)
      \<and> currentPiece l = Some c
    \<longrightarrow> (\<exists>h' l'. deleteNxtPieceAndMove (h, l) = Some (h', l')
            \<and> getLength (h', l') = getLength (h, l) - 1
            \<and> chain h' (head l') (ps @ c # rest @ [x])
            \<and> (\<forall>b. map_option payload (cell h' b) = map_option payload (cell h b))))
   \<and> (distinct [A, B, C] \<and> cell h0 A \<noteq> None \<and> cell h0 B \<noteq> None \<and> cell h0 C \<noteq> None
    \<longrightarrow> (\<exists>h3 l3 h4 l4.
            from_new f dflt h0
              [AddPiece (Some A) :: ('p, 'pt, 'e) call, AddPiece (Some B), AddPiece (Some C)]
              = Some (h3, l3)
            \<and> getLength (h3, l3) = 3
            \<and> chain h3 (head l3) [length h0, A, B, C]
            \<and> from_new f dflt h0
              [AddPiece (Some A) :: ('p, 'pt, 'e) call, AddPiece (Some B), AddPiece (Some C),
               InitializeCurrentPiece, DeleteNxtPieceAndMove]
              = Some (h4, l4)
            \<and> getLength (h4, l4) = 2
            \<and> chain h4 (head l4) [length h0, B, C, A]))"
proof (intro conjI impI)
  assume "chain h (head l) (ps @ c # x # rest) \<and> rest \<noteq> [] \<and> tail l = Some (last rest)
      \<and> currentPiece l = Some c"
  then have a: "chain h (head l) (ps @ c # x # rest)" "rest \<noteq> []" "tail l = Some (last rest)"
    "currentPiece l = Some c"
    by auto
  from deleteNxtPieceAndMove_chain [OF a]
  show "\<exists>h' l'. deleteNxtPieceAndMove (h, l) = Some (h', l')
            \<and> getLength (h', l') = getLength (h, l) - 1
            \<and> chain h' (head l') (ps @ c # rest @ [x])
            \<and> (\<forall>b. map_option payload (cell h' b) = map_option payload (cell h b))"
    by (auto simp del: deleteNxtPieceAndMove.simps)
next
  assume "distinct [A, B, C] \<and> cell h0 A \<noteq> None \<and> cell h0 B \<noteq> None \<and> cell h0 C \<noteq> None"
  then have d: "distinct [A, B, C]"
    and live: "cell h0 A \<noteq> None" "cell h0 B \<noteq> None" "cell h0 C \<noteq> None"
    by auto
  let ?s = "length h0"
  from append_three [OF d live, of f dflt] obtain h3 l3 where
    wf3: "wf_list [?s, A, B, C] (h3, l3)"
    and run3: "\<And>cs :: ('p, 'pt, 'e) call list. from_new f dflt h0
                 (AddPiece (Some A) # AddPiece (Some B) # AddPiece (Some C) # cs)
             = run f cs [?s, A, B, C] (h3, l3)"
    by blast
  from wf3 have ch3: "chain h3 (head l3) [?s, A, B, C]" and tl3: "tail l3 = Some C"
    and len3: "lengthList l3 = 3"
    by auto
  have hd3: "head l3 = Some ?s" using ch3 by (rule chain_head)
  have p: "path h3 (head l3) [?s, A, B, C] None" using ch3 by (simp add: chain_def)
  have n1: "get_nxt h3 (Some ?s) = Some (Some A)"
    using path_step [of h3 "head l3" "[]" ?s A "[B, C]" None] p by simp
  have n2: "get_nxt h3 (Some A) = Some (Some B)"
    using path_step [of h3 "head l3" "[?s]" A B "[C]" None] p by simp
  define l3' where "l3' = l3\<lparr>currentPiece := head l3\<rparr>"
  have ch3': "chain h3 (head l3') ([] @ ?s # A # [B, C])" using ch3 by (simp add: l3'_def)
  have tl3': "tail l3' = Some (last [B, C])" using tl3 by (simp add: l3'_def)
  have cur3': "currentPiece l3' = Some ?s" using hd3 by (simp add: l3'_def)
  from deleteNxtPieceAndMove_chain [OF ch3' _ tl3' cur3'] obtain h4 where
    r4: "deleteNxtPieceAndMove (h3, l3') =
           Some (h4, l3'\<lparr>tail := Some A, lengthList := lengthList l3' - 1\<rparr>)"
    and ch4: "chain h4 (head l3') ([] @ ?s # [B, C] @ [A])"
    by blast
  define l4 where "l4 = l3'\<lparr>tail := Some A, lengthList := lengthList l3' - 1\<rparr>"
  have two: "has_two_successors h3 (currentPiece l3')"
    using n1 n2 cur3' by simp
  have run5: "from_new f dflt h0
              [AddPiece (Some A) :: ('p, 'pt, 'e) call, AddPiece (Some B), AddPiece (Some C),
               InitializeCurrentPiece, DeleteNxtPieceAndMove]
              = Some (h4, l4)"
    using run3 [of "[InitializeCurrentPiece, DeleteNxtPieceAndMove]"] two r4
    by (simp add: l3'_def l4_def del: deleteNxtPieceAndMove.simps has_two_successors.simps)
  have "getLength (h4, l4) = 2" using len3 by (simp add: l4_def l3'_def)
  moreover have "chain h4 (head l4) [?s, B, C, A]" using ch4 by (simp add: l4_def)
  moreover have "from_new f dflt h0
              [AddPiece (Some A) :: ('p, 'pt, 'e) call, AddPiece (Some B), AddPiece (Some C)]
              = Some (h3, l3)"
    using run3 [of "[]"] by simp
  moreover have "getLength (h3, l3) = 3" using len3 by simp
  ultimately show "\<exists>h3 l3 h4 l4.
            from_new f dflt h0
              [AddPiece (Some A) :: ('p, 'pt, 'e) call, AddPiece (Some B), AddPiece (Some C)]
              = Some (h3, l3)
            \<and> getLength (h3, l3) = 3
            \<and> chain h3 (head l3) [length h0, A, B, C]
            \<and> from_new f dflt h0
              [AddPiece (Some A) :: ('p, 'pt, 'e) call, AddPiece (Some B), AddPiece (Some C),
               InitializeCurrentPiece, DeleteNxtPieceAndMove]
              = Some (h4, l4)
            \<and> getLength (h4, l4) = 2
            \<and> chain h4 (head l4) [length h0, B, C, A]"
    using ch3 run5 by blast
qed

text \<open>Both parts of the theorem on the pieces A, B, C at the addresses 0, 1, 2.\<close>

theorem deleteNxt_moves_adjacent_node_witness:
  "chain heap_ABC (head list_ABC) ([] @ 3 # 0 # [1, 2])
   \<and> tail list_ABC = Some (last [1, 2]) \<and> currentPiece list_ABC = Some 3
   \<and> (\<exists>h' l'. deleteNxtPieceAndMove (heap_ABC, list_ABC) = Some (h', l')
          \<and> getLength (h', l') = 2
          \<and> chain h' (head l') [3, 1, 2, 0])
   \<and> distinct [0, 1, 2 :: nat]
   \<and> cell three_pieces 0 \<noteq> None \<and> cell three_pieces 1 \<noteq> None
   \<and> cell three_pieces 2 \<noteq> None
   \<and> (\<exists>h3 l3 h4 l4.
          from_new (\<lambda>pt p. pt + p) blank three_pieces
            [AddPiece (Some 0) :: (nat, nat, unit) call, AddPiece (Some 1), AddPiece (Some 2)]
            = Some (h3, l3)
          \<and> getLength (h3, l3) = 3
          \<and> chain h3 (head l3) [3, 0, 1, 2]
          \<and> from_new (\<lambda>pt p. pt + p) blank three_pieces
            [AddPiece (Some 0) :: (nat, nat, unit) call, AddPiece (Some 1), AddPiece (Some 2),
             InitializeCurrentPiece, DeleteNxtPieceAndMove]
            = Some (h4, l4)
          \<and> getLength (h4, l4) = 2
          \<and> chain h4 (head l4) [3, 1, 2, 0])"
proof -
  have a: "chain heap_ABC (head list_ABC) ([] @ 3 # 0 # [1, 2])
     \<and> [1, 2] \<noteq> ([] :: nat list) \<and> tail list_ABC = Some (last [1, 2])
     \<and> currentPiece list_ABC = Some 3"
    by (simp add: heap_ABC_def list_ABC_def chain_def cell_def)
  have b: "distinct [0, 1, 2 :: nat] \<and> cell three_pieces 0 \<noteq> None
     \<and> cell three_pieces 1 \<noteq> None \<and> cell three_pieces 2 \<noteq> None"
    by (simp add: three_pieces_def cell_def)
  have len: "length three_pieces = 3" by (simp add: three_pieces_def)
  have g: "getLength (heap_ABC, list_ABC) - 1 = 2" by (simp add: list_ABC_def)
  note t = deleteNxt_moves_adjacent_node
    [of heap_ABC list_ABC "[]" 3 0 "[1, 2]" 0 1 2 three_pieces "\<lambda>pt p. pt + p" blank]
  from t [THEN conjunct1, rule_format, OF a]
  have 1: "\<exists>h' l'. deleteNxtPieceAndMove (heap_ABC, list_ABC) = Some (h', l')
          \<and> getLength (h', l') = 2
          \<and> chain h' (head l') [3, 1, 2, 0]"
    unfolding g by (auto simp del: deleteNxtPieceAndMove.simps)
  from t [THEN conjunct2, rule_format, OF b]
  have 2: "\<exists>h3 l3 h4 l4.
          from_new (\<lambda>pt p. pt + p) blank three_pieces
            [AddPiece (Some 0) :: (nat, nat, unit) call, AddPiece (Some 1), AddPiece (Some 2)]
            = Some (h3, l3)
          \<and> getLength (h3, l3) = 3
          \<and> chain h3 (head l3) [3, 0, 1, 2]
          \<and> from_new (\<lambda>pt p. pt + p) blank three_pieces
            [AddPiece (Some 0) :: (nat, nat, unit) call, AddPiece (Some 1), AddPiece (Some 2),
             InitializeCurrentPiece, DeleteNxtPieceAndMove]
            = Some (h4, l4)
          \<and> getLength (h4, l4) = 2
          \<and> chain h4 (head l4) [3, 1, 2, 0]"
    unfolding len .
  from a b 1 2 show ?thesis by blast
qed

text \<open>
  The claim C10 says that only the successor link of \<open>currentPiece\<close>, \<open>tail\<close> and
  \<open>lengthList\<close> change. On the list sentinel, A, B, C with the cursor at the sentinel, the
  successor link of C (address 2, the old tail) changes from \<^verbatim>\<open>NULL\<close> to A, and the
  successor link of A (address 0) changes from B to \<^verbatim>\<open>NULL\<close>; neither piece is
  \<open>currentPiece\<close>.
\<close>

theorem deleteNxt_other_links_counterexample:
  "deleteNxtPieceAndMove (heap_ABC, list_ABC) = Some (heap_BCA, list_BCA)
   \<and> currentPiece list_ABC = Some 3
   \<and> get_nxt heap_ABC (Some 2) = Some None
   \<and> get_nxt heap_BCA (Some 2) = Some (Some 0)
   \<and> get_nxt heap_ABC (Some 0) = Some (Some 1)
   \<and> get_nxt heap_BCA (Some 0) = Some None"
  by (simp add: heap_ABC_def list_ABC_def heap_BCA_def list_BCA_def
      get_nxt_def set_nxt_def cell_def)

text \<open>
  C10, as the code has it. When the successor of \<open>tail\<close> is \<^verbatim>\<open>NULL\<close>, \<open>currentPiece\<close>
  has a successor \<open>x\<close> and \<open>x\<close> has a successor \<open>y\<close>, the call returns and
  \<open>currentPiece\<close> refers to the same piece as before: of the members of the list, only
  \<open>tail\<close> (now \<open>x\<close>) and \<open>lengthList\<close> (one less) change. In the heap, three successor
  links change: the one of the old tail (now \<open>x\<close>), the one of \<open>x\<close> (now \<^verbatim>\<open>NULL\<close>) and
  the one of \<open>currentPiece\<close> (now \<open>y\<close>, unless \<open>x\<close> is \<open>currentPiece\<close> itself). Every
  other piece and every payload is as before.
\<close>

theorem deleteNxt_keeps_cursor:
  assumes "get_nxt h (tail l) = Some None"
    and "get_nxt h (currentPiece l) = Some (Some x)"
    and "get_nxt h (Some x) = Some (Some y)"
  shows "\<exists>h'. deleteNxtPieceAndMove (h, l) =
               Some (h', l\<lparr>tail := Some x, lengthList := lengthList l - 1\<rparr>)
           \<and> get_nxt h' (tail l) = Some (Some x)
           \<and> get_nxt h' (Some x) = Some None
           \<and> (currentPiece l \<noteq> Some x \<longrightarrow> get_nxt h' (currentPiece l) = Some (Some y))
           \<and> (\<forall>b. Some b \<noteq> tail l \<longrightarrow> Some b \<noteq> currentPiece l \<longrightarrow> b \<noteq> x
                  \<longrightarrow> cell h' b = cell h b)
           \<and> (\<forall>b. map_option payload (cell h' b) = map_option payload (cell h b))"
  using deleteNxtPieceAndMove_cells [OF assms] by (auto simp del: deleteNxtPieceAndMove.simps)

text \<open>The theorem on the list sentinel, A, B, C: the cell of B is one of those left alone.\<close>

theorem deleteNxt_keeps_cursor_witness:
  "get_nxt heap_ABC (tail list_ABC) = Some None
   \<and> get_nxt heap_ABC (currentPiece list_ABC) = Some (Some 0)
   \<and> get_nxt heap_ABC (Some 0) = Some (Some 1)
   \<and> (\<exists>h' l'. deleteNxtPieceAndMove (heap_ABC, list_ABC) = Some (h', l')
         \<and> currentPiece l' = currentPiece list_ABC
         \<and> head l' = head list_ABC
         \<and> lastActivePiece l' = lastActivePiece list_ABC
         \<and> tail l' = Some 0
         \<and> lengthList l' = 2
         \<and> cell h' 1 = cell heap_ABC 1)"
proof -
  have a: "get_nxt heap_ABC (tail list_ABC) = Some None"
    by (simp add: heap_ABC_def list_ABC_def get_nxt_def cell_def)
  have b: "get_nxt heap_ABC (currentPiece list_ABC) = Some (Some 0)"
    by (simp add: heap_ABC_def list_ABC_def get_nxt_def cell_def)
  have c: "get_nxt heap_ABC (Some 0) = Some (Some 1)"
    by (simp add: heap_ABC_def get_nxt_def cell_def)
  have e: "lengthList list_ABC - 1 = 2" by (simp add: list_ABC_def)
  have f: "Some 1 \<noteq> tail list_ABC" "Some 1 \<noteq> currentPiece list_ABC" "(1::nat) \<noteq> 0"
    by (simp_all add: list_ABC_def)
  from deleteNxt_keeps_cursor [OF a b c] obtain h' where
    "deleteNxtPieceAndMove (heap_ABC, list_ABC) =
       Some (h', list_ABC\<lparr>tail := Some 0, lengthList := lengthList list_ABC - 1\<rparr>)"
    "\<forall>b. Some b \<noteq> tail list_ABC \<longrightarrow> Some b \<noteq> currentPiece list_ABC \<longrightarrow> b \<noteq> 0
                  \<longrightarrow> cell h' b = cell heap_ABC b"
    by blast
  with f e have "\<exists>h' l'. deleteNxtPieceAndMove (heap_ABC, list_ABC) = Some (h', l')
         \<and> currentPiece l' = currentPiece list_ABC
         \<and> head l' = head list_ABC
         \<and> lastActivePiece l' = lastActivePiece list_ABC
         \<and> tail l' = Some 0
         \<and> lengthList l' = 2
         \<and> cell h' 1 = cell heap_ABC 1"
    by (auto simp del: deleteNxtPieceAndMove.simps)
  with a b c show ?thesis by blast
qed

section \<open>Broadcasting a point\<close>

text \<open>
  The claim C2 says that the node-level method is invoked on the real pieces and on no
  other piece, so that on an empty list the call is a no-op. The loop starts at \<open>head\<close>
  and calls the method on the cursor before it moves: on the list sentinel, A, B, C the
  calls are made on the addresses 3, 0, 1, 2, the sentinel (address 3) first, and the
  payload of the sentinel changes from 0 to 5; on the freshly constructed list the one
  call is made on the sentinel.
\<close>

theorem addPointAndPenalty_sentinel_counterexample:
  "addPointAndPenalty (\<lambda>pt p. pt + p) 5 () (heap_ABC, list_ABC) =
     Some (([Some \<lparr>nxt = Some 1, payload = 15\<rparr>, Some \<lparr>nxt = Some 2, payload = 25\<rparr>,
             Some \<lparr>nxt = None, payload = 35\<rparr>, Some \<lparr>nxt = Some 0, payload = 5\<rparr>],
            list_ABC\<lparr>currentPiece := None\<rparr>), [3, 0, 1, 2])
   \<and> head list_ABC = Some 3
   \<and> addPointAndPenalty (\<lambda>pt p. pt + p) 5 () (heap_fresh, list_fresh) =
     Some (([Some \<lparr>nxt = Some 7, payload = 10\<rparr>, Some \<lparr>nxt = None, payload = 20\<rparr>,
             Some \<lparr>nxt = Some 0, payload = 30\<rparr>, Some \<lparr>nxt = None, payload = 5\<rparr>],
            list_fresh\<lparr>currentPiece := None\<rparr>), [3])
   \<and> head list_fresh = Some 3"
  by code_simp

text \<open>
  C2, as the code has it. On every list whose chain from \<open>head\<close> is the sentinel \<open>s\<close>
  followed by the pieces \<open>real\<close>, \<^verbatim>\<open>addPointAndPenalty\<close> returns; it has reset the cursor to
  the sentinel and invoked the node-level method on the sentinel and then on every real
  piece, exactly once each and in list order (the trace is \<open>s # real\<close>, which has no
  repetition), and on no other piece: the payload of each piece on the chain is \<open>f pt\<close>
  of its old payload, every other cell and every link is as before. The cursor is
  \<^verbatim>\<open>NULL\<close> at the end.
\<close>

theorem addPointAndPenalty_visits_sentinel_and_pieces:
  assumes "chain h (head l) (s # real)"
  shows "\<exists>h'. addPointAndPenalty f pt edge (h, l) =
               Some ((h', l\<lparr>currentPiece := None\<rparr>), s # real)
           \<and> head l = Some s
           \<and> distinct (s # real)
           \<and> chain h' (head l) (s # real)
           \<and> (\<forall>b. cell h' b =
                 (if b \<in> set (s # real)
                  then map_option (\<lambda>c. c\<lparr>payload := f pt (payload c)\<rparr>) (cell h b)
                  else cell h b))"
proof -
  have "head l = Some s" using assms by (simp add: chain_def)
  moreover have "distinct (s # real)" using assms by (rule chain_distinct)
  ultimately show ?thesis
    using addPointAndPenalty_chain [OF assms, of f pt edge]
    by (auto simp del: addPointAndPenalty.simps)
qed

text \<open>The theorem on the list sentinel, A, B, C with the point 5.\<close>

theorem addPointAndPenalty_visits_sentinel_and_pieces_witness:
  "chain heap_ABC (head list_ABC) (3 # [0, 1, 2])
   \<and> (\<exists>h'. addPointAndPenalty (\<lambda>pt p. pt + p) 5 () (heap_ABC, list_ABC) =
               Some ((h', list_ABC\<lparr>currentPiece := None\<rparr>), [3, 0, 1, 2])
           \<and> chain h' (head list_ABC) [3, 0, 1, 2]
           \<and> cell h' 3 = Some \<lparr>nxt = Some 0, payload = 5\<rparr>
           \<and> cell h' 1 = Some \<lparr>nxt = Some 2, payload = 25\<rparr>)"
proof -
  have a: "chain heap_ABC (head list_ABC) (3 # [0, 1, 2])"
    by (simp add: heap_ABC_def list_ABC_def chain_def cell_def)
  have c3: "cell heap_ABC 3 = Some \<lparr>nxt = Some 0, payload = 0\<rparr>"
    and c1: "cell heap_ABC 1 = Some \<lparr>nxt = Some 2, payload = 20\<rparr>"
    by (simp_all add: heap_ABC_def cell_def)
  from addPointAndPenalty_visits_sentinel_and_pieces [OF a, of "\<lambda>pt p. pt + p" 5 "()"]
  obtain h' where
    r: "addPointAndPenalty (\<lambda>pt p. pt + p) 5 () (heap_ABC, list_ABC) =
               Some ((h', list_ABC\<lparr>currentPiece := None\<rparr>), [3, 0, 1, 2])"
    and ch: "chain h' (head list_ABC) [3, 0, 1, 2]"
    and cells: "\<forall>b. cell h' b =
                 (if b \<in> set [3, 0, 1, 2]
                  then map_option (\<lambda>c. c\<lparr>payload := 5 + payload c\<rparr>) (cell heap_ABC b)
                  else cell heap_ABC b)"
    by blast
  have "cell h' 3 = Some \<lparr>nxt = Some 0, payload = 5\<rparr>"
    using cells [rule_format, of 3] c3 by simp
  moreover have "cell h' 1 = Some \<lparr>nxt = Some 2, payload = 25\<rparr>"
    using cells [rule_format, of 1] c1 by simp
  ultimately show ?thesis using a r ch by blast
qed

section \<open>Invariants of the list\<close>

text \<open>
  C6. In every state reached from a freshly constructed list by calls of \<^verbatim>\<open>addPiece\<close>,
  \<^verbatim>\<open>move\<close>, \<^verbatim>\<open>initializeCurrentPiece\<close>, \<^verbatim>\<open>deleteNxtPieceAndMove\<close> and
  \<^verbatim>\<open>addPointAndPenalty\<close>, each under its stated precondition (and with the caller
  allocating pieces in between), \<open>tail\<close> points to a live piece whose successor is
  \<^verbatim>\<open>NULL\<close>.
\<close>

theorem tail_successor_is_null:
  assumes "from_new f dflt h cs = Some (h', l')"
  shows "get_nxt h' (tail l') = Some None"
proof -
  from ctor_wf [of dflt h] obtain h0 l0 where
    c: "ListPiece_ctor dflt h = Some (h0, l0)" and wf0: "wf_list [length h] (h0, l0)"
    by blast
  from assms c have r: "run f cs [length h] (h0, l0) = Some (h', l')"
    by (simp add: from_new_def)
  have t: "get_nxt h0 (tail l0) = Some None"
    using wf0 chain_last_nxt [of h0 "head l0" "[length h]"] by simp
  have la: "\<exists>b. b \<in> set [length h] \<and> lastActivePiece l0 = Some b" using wf0 by simp
  from run_tail_inv [OF t la r] show ?thesis .
qed

text \<open>
  A run through every operation: three appends, a reset, a removal, a move, an allocation
  by the caller, an append that takes the second branch, and a broadcast.
\<close>

theorem tail_successor_is_null_witness:
  "from_new (\<lambda>pt p. pt + p) blank three_pieces
     (append_ABC @ [InitializeCurrentPiece, DeleteNxtPieceAndMove, Move, CallerNew blank,
                    AddPiece (Some 4), AddPointAndPenalty 5 ()])
   = Some ([Some \<lparr>nxt = None, payload = 15\<rparr>, Some \<lparr>nxt = Some 2, payload = 25\<rparr>,
            Some \<lparr>nxt = Some 0, payload = 35\<rparr>, Some \<lparr>nxt = Some 1, payload = 5\<rparr>,
            Some \<lparr>nxt = None, payload = 0\<rparr>],
           \<lparr>head = Some 3, tail = Some 0, lastActivePiece = Some 4,
             currentPiece = None, lengthList = 3\<rparr>)
   \<and> get_nxt [Some \<lparr>nxt = None, payload = 15\<rparr>, Some \<lparr>nxt = Some 2, payload = 25\<rparr>,
            Some \<lparr>nxt = Some 0, payload = 35\<rparr>, Some \<lparr>nxt = Some 1, payload = 5\<rparr>,
            Some \<lparr>nxt = None, payload = (0::nat)\<rparr>]
        (tail \<lparr>head = Some 3, tail = Some 0, lastActivePiece = Some 4,
             currentPiece = None, lengthList = 3\<rparr>) = Some None"
proof -
  have r: "from_new (\<lambda>pt p. pt + p) blank three_pieces
     (append_ABC @ [InitializeCurrentPiece, DeleteNxtPieceAndMove, Move, CallerNew blank,
                    AddPiece (Some 4), AddPointAndPenalty 5 ()])
   = Some ([Some \<lparr>nxt = None, payload = 15\<rparr>, Some \<lparr>nxt = Some 2, payload = 25\<rparr>,
            Some \<lparr>nxt = Some 0, payload = 35\<rparr>, Some \<lparr>nxt = Some 1, payload = 5\<rparr>,
            Some \<lparr>nxt = None, payload = 0\<rparr>],
           \<lparr>head = Some 3, tail = Some 0, lastActivePiece = Some 4,
             currentPiece = None, lengthList = 3\<rparr>)"
    by code_simp
  from tail_successor_is_null [OF r] r show ?thesis by (rule conjI [rotated])
qed

text \<open>
  The claim C3 says that \<open>lengthList\<close> is the number of real pieces reachable from
  \<open>head\<close> except right after an \<^verbatim>\<open>addPiece\<close> that took its second branch, and that
  \<^verbatim>\<open>deleteNxtPieceAndMove\<close> preserves the equality. After appending A, B, C (each time
  \<open>lastActivePiece\<close> had no successor, so the first branch was taken), a reset of the cursor
  and one \<^verbatim>\<open>deleteNxtPieceAndMove\<close>, the chain still holds the three real pieces B, C, A
  and \<^verbatim>\<open>getLength()\<close> is 2.
\<close>

theorem lengthList_after_delete_counterexample:
  "from_new (\<lambda>pt p. pt + p) blank three_pieces
      (append_ABC @ [InitializeCurrentPiece, DeleteNxtPieceAndMove]) = Some (heap_BCA, list_BCA)
   \<and> chain heap_BCA (head list_BCA) [3, 1, 2, 0]
   \<and> getLength (heap_BCA, list_BCA) = 2
   \<and> from_new (\<lambda>pt p. pt + p) blank three_pieces ([] :: (nat, nat, unit) call list)
        \<bind> (\<lambda>(h, l). get_nxt h (lastActivePiece l)) = Some None
   \<and> from_new (\<lambda>pt p. pt + p) blank three_pieces (take 1 append_ABC)
        \<bind> (\<lambda>(h, l). get_nxt h (lastActivePiece l)) = Some None
   \<and> from_new (\<lambda>pt p. pt + p) blank three_pieces (take 2 append_ABC)
        \<bind> (\<lambda>(h, l). get_nxt h (lastActivePiece l)) = Some None"
  by (simp add: from_new_def ListPiece_ctor_def new_Piece_def blank_def three_pieces_def
      append_ABC_def heap_BCA_def list_BCA_def chain_def get_nxt_def set_nxt_def cell_def)

text \<open>
  C3, as the code has it. In every state reached from a freshly constructed list by calls
  of \<^verbatim>\<open>addPiece\<close>, \<^verbatim>\<open>move\<close>, \<^verbatim>\<open>initializeCurrentPiece\<close> and \<^verbatim>\<open>addPointAndPenalty\<close> under
  their stated preconditions, the chain from \<open>head\<close> is the sentinel followed by pieces
  \<open>ns\<close>, and \<open>lengthList\<close> equals their number (as an \<^verbatim>\<open>unsigned int\<close>, that is modulo
  \<open>2 ^ 32\<close>); there \<open>lastActivePiece\<close> has no successor, so \<^verbatim>\<open>addPiece\<close> takes its first
  branch. \<^verbatim>\<open>deleteNxtPieceAndMove\<close> does not preserve the equality: called in such a state
  under its precondition, it returns, the chain has as many real pieces as before, and
  \<open>lengthList\<close> is one less, hence different from their number.
\<close>

theorem lengthList_counts_until_delete:
  assumes "from_new f dflt h cs = Some (h', l')"
    and "DeleteNxtPieceAndMove \<notin> set cs"
  shows "\<exists>ns. chain h' (head l') (length h # ns)
           \<and> lengthList l' = of_nat (length ns)
           \<and> get_nxt h' (lastActivePiece l') = Some None
           \<and> (has_two_successors h' (currentPiece l') \<longrightarrow>
                (\<exists>h'' l'' ns'. deleteNxtPieceAndMove (h', l') = Some (h'', l'')
                   \<and> chain h'' (head l'') (length h # ns')
                   \<and> length ns' = length ns
                   \<and> lengthList l'' = lengthList l' - 1
                   \<and> lengthList l'' \<noteq> of_nat (length ns')))"
proof -
  from ctor_wf [of dflt h] obtain h0 l0 where
    c: "ListPiece_ctor dflt h = Some (h0, l0)" and wf0: "wf_list [length h] (h0, l0)"
    by blast
  from assms c have r: "run f cs [length h] (h0, l0) = Some (h', l')"
    by (simp add: from_new_def)
  from run_wf [OF wf0 assms(2) r] obtain own where
    wf: "wf_list own (h', l')" and hd: "hd own = length h"
    by auto
  then obtain ns where own: "own = length h # ns" by (cases own) auto
  have ch: "chain h' (head l') (length h # ns)" using wf own by simp
  have len: "lengthList l' = of_nat (length ns)" using wf own by simp
  have la: "get_nxt h' (lastActivePiece l') = Some None"
    using wf chain_last_nxt [of h' "head l'" own] by simp
  have del: "\<exists>h'' l'' ns'. deleteNxtPieceAndMove (h', l') = Some (h'', l'')
                   \<and> chain h'' (head l'') (length h # ns')
                   \<and> length ns' = length ns
                   \<and> lengthList l'' = lengthList l' - 1
                   \<and> lengthList l'' \<noteq> of_nat (length ns')"
    if two: "has_two_successors h' (currentPiece l')"
  proof -
    from wf_delete [OF wf two] obtain h'' l'' own' where
      d: "deleteNxtPieceAndMove (h', l') = Some (h'', l'')"
      "chain h'' (head l'') own'" "length own' = length own" "hd own' = hd own"
      "lengthList l'' = lengthList l' - 1"
      by blast
    from d(3,4) own obtain ns' where own': "own' = length h # ns'" by (cases own') auto
    with d(3) own have "length ns' = length ns" by simp
    moreover from this d(5) len have "lengthList l'' \<noteq> of_nat (length ns')" by simp
    ultimately show ?thesis using d own' by blast
  qed
  from ch len la del show ?thesis by blast
qed

text \<open>The theorem on the state after appending A, B, C and resetting the cursor.\<close>

theorem lengthList_counts_until_delete_witness:
  "from_new (\<lambda>pt p. pt + p) blank three_pieces (append_ABC @ [InitializeCurrentPiece])
     = Some (heap_ABC, list_ABC)
   \<and> DeleteNxtPieceAndMove \<notin> set (append_ABC @ [InitializeCurrentPiece])
   \<and> has_two_successors heap_ABC (currentPiece list_ABC)
   \<and> (\<exists>ns. chain heap_ABC (head list_ABC) (3 # ns)
         \<and> lengthList list_ABC = of_nat (length ns)
         \<and> get_nxt heap_ABC (lastActivePiece list_ABC) = Some None
         \<and> (\<exists>h'' l'' ns'. deleteNxtPieceAndMove (heap_ABC, list_ABC) = Some (h'', l'')
               \<and> chain h'' (head l'') (3 # ns')
               \<and> length ns' = length ns
               \<and> lengthList l'' = lengthList list_ABC - 1
               \<and> lengthList l'' \<noteq> of_nat (length ns')))"
proof -
  have r: "from_new (\<lambda>pt p. pt + p) blank three_pieces (append_ABC @ [InitializeCurrentPiece])
     = Some (heap_ABC, list_ABC)"
    by (simp add: from_new_def ListPiece_ctor_def new_Piece_def blank_def three_pieces_def
      append_ABC_def heap_ABC_def list_ABC_def get_nxt_def set_nxt_def cell_def)
  have nd: "DeleteNxtPieceAndMove \<notin> set (append_ABC @ [InitializeCurrentPiece])"
    by (simp add: append_ABC_def)
  have two: "has_two_successors heap_ABC (currentPiece list_ABC)"
    by (simp add: heap_ABC_def list_ABC_def get_nxt_def cell_def)
  have len: "length three_pieces = 3" by (simp add: three_pieces_def)
  from lengthList_counts_until_delete [OF r nd] two r nd show ?thesis
    unfolding len by blast
qed

section \<open>The edge constraint\<close>

text \<open>
  C4. The claim asks the call to return an independent, well-formed list and to leave the
  receiver as it was. The body of \<^verbatim>\<open>edgeConstraintLP\<close> is empty; whatever the arguments,
  on the list sentinel, A, B, C, the call has no result.
\<close>

theorem edgeConstraintLP_no_result:
  "edgeConstraintLP edge newLabel bound (heap_ABC, list_ABC) = None"
  by (simp add: edgeConstraintLP_def)

end
